theory Spec2Isabelle
  imports Complex_Main "HOL-Library.Multiset" "HOL-Library.Char_ord" "HOL-Library.List_Lexorder"
    "HOL-Library.Product_Lexorder"
begin

section \<open>Errors and small helpers\<close>

text \<open>
  The Python exceptions the modelled functions raise. A function that may raise returns
  \<open>py_error + 'a\<close>, with \<open>Inl\<close> for the exception; one that may have written to
  the disk before it raises returns the disk with the exception, if any. \<open>OSError\<close> stands
  for the errors of the operating system on a file that cannot be created or written
  (\<^verbatim>\<open>FileNotFoundError\<close>, \<^verbatim>\<open>PermissionError\<close> and pandas' own \<^verbatim>\<open>OSError\<close> for a
  directory that does not exist).
\<close>

datatype py_error = ValueError | IndexError | OSError

definition is_digit :: "char \<Rightarrow> bool" where
  "is_digit c = (c \<in> set ''0123456789'')"

definition digit_val :: "char \<Rightarrow> nat" where
  "digit_val c = of_char c - 48"

definition digit_char :: "nat \<Rightarrow> char" where
  "digit_char n = ''0123456789'' ! (n mod 10)"

text \<open>\<^verbatim>\<open>str(n)\<close> of a natural number: its decimal digits, without leading zeros.\<close>

fun str_nat :: "nat \<Rightarrow> string" where
  "str_nat n = (if n < 10 then [digit_char n] else str_nat (n div 10) @ [digit_char n])"

declare str_nat.simps [simp del]

section \<open>ledger\_pro.get\_months\_in\_range\<close>

text \<open>
  \<^verbatim>\<open>start_month_str.split('-')\<close>: the pieces between the dashes.
\<close>

fun split_dash :: "string \<Rightarrow> string list" where
  "split_dash [] = [[]]"
| "split_dash (c # cs) =
     (if c = CHR ''-'' then [] # split_dash cs
      else (case split_dash cs of [] \<Rightarrow> [[c]] | p # ps \<Rightarrow> (c # p) # ps))"

text \<open>
  \<^verbatim>\<open>int(s)\<close> on a piece that holds no dash: a non-empty run of ASCII digits, after an
  optional plus sign. (Python's \<^verbatim>\<open>int\<close> also strips blanks and allows single underscores
  between digits; those spellings are read as \<open>ValueError\<close> here.)
\<close>

definition digits_val :: "string \<Rightarrow> nat" where
  "digits_val s = foldl (\<lambda>a c. 10 * a + digit_val c) 0 s"

definition py_int :: "string \<Rightarrow> py_error + nat" where
  "py_int s =
     (let t = (case s of c # cs \<Rightarrow> if c = CHR ''+'' then cs else s | [] \<Rightarrow> s)
      in if t \<noteq> [] \<and> list_all is_digit t then Inr (digits_val t) else Inl ValueError)"

text \<open>
  \<^verbatim>\<open>a, b = map(int, s.split('-'))\<close>: unpacking needs exactly two pieces, and \<^verbatim>\<open>map\<close>
  converts them in order.
\<close>

definition parse_year_month :: "string \<Rightarrow> py_error + (nat \<times> nat)" where
  "parse_year_month s =
     (case split_dash s of
        [a, b] \<Rightarrow>
          (case py_int a of
             Inl e \<Rightarrow> Inl e
           | Inr y \<Rightarrow> (case py_int b of Inl e \<Rightarrow> Inl e | Inr m \<Rightarrow> Inr (y, m)))
      | _ \<Rightarrow> Inl ValueError)"

text \<open>
  \<^verbatim>\<open>datetime.date(year, month, 1)\<close>: the first day of a month, as the pair of year and
  month; \<open>ValueError\<close> outside the years 1 to 9999 and the months 1 to 12.
\<close>

definition first_of_month :: "nat \<Rightarrow> nat \<Rightarrow> py_error + (nat \<times> nat)" where
  "first_of_month y m =
     (if 1 \<le> y \<and> y \<le> 9999 \<and> 1 \<le> m \<and> m \<le> 12 then Inr (y, m) else Inl ValueError)"

text \<open>Comparison of two such dates.\<close>

definition ym_le :: "nat \<times> nat \<Rightarrow> nat \<times> nat \<Rightarrow> bool" where
  "ym_le a b = (fst a < fst b \<or> (fst a = fst b \<and> snd a \<le> snd b))"

text \<open>
  \<^verbatim>\<open>strftime("%Y-%m")\<close>, as the C library of Linux formats it: \<^verbatim>\<open>%Y\<close> is the year in
  decimal with no padding (so the year 999 is printed with three digits), \<^verbatim>\<open>%m\<close> the
  month with two digits. \<open>zfill w n\<close> is the number \<open>n\<close> in \<open>w\<close> digits, with leading
  zeros.
\<close>

fun zfill :: "nat \<Rightarrow> nat \<Rightarrow> string" where
  "zfill 0 n = []"
| "zfill (Suc w) n = zfill w (n div 10) @ [digit_char n]"

definition strftime_ym :: "nat \<times> nat \<Rightarrow> string" where
  "strftime_ym d = str_nat (fst d) @ ''-'' @ zfill 2 (snd d)"

text \<open>
  The \<^verbatim>\<open>while\<close> loop of \<^verbatim>\<open>get_months_in_range\<close>. The end date is rebuilt by the loop
  condition on every round; the next date is built by \<^verbatim>\<open>datetime.date\<close>, which raises
  past the year 9999.
\<close>

function months_loop :: "nat \<times> nat \<Rightarrow> nat \<Rightarrow> nat \<Rightarrow> string list \<Rightarrow> py_error + string list" where
  "months_loop cur ey em months =
     (case first_of_month ey em of
        Inl e \<Rightarrow> Inl e
      | Inr end_date \<Rightarrow>
          if ym_le cur end_date then
            (case (if snd cur = 12 then first_of_month (fst cur + 1) 1
                   else first_of_month (fst cur) (snd cur + 1)) of
               Inl e \<Rightarrow> Inl e
             | Inr nxt \<Rightarrow> months_loop nxt ey em (months @ [strftime_ym cur]))
          else Inr months)"
  by pat_completeness auto
termination
  by (relation "measure (\<lambda>(cur, ey, em, months). 12 * ey + em + 1 - (12 * fst cur + snd cur))")
     (auto simp: first_of_month_def ym_le_def split: if_splits)

declare months_loop.simps [simp del]

definition get_months_in_range :: "string \<Rightarrow> string \<Rightarrow> py_error + string list" where
  "get_months_in_range start_month_str end_month_str =
     (case parse_year_month start_month_str of
        Inl e \<Rightarrow> Inl e
      | Inr (start_year, start_month) \<Rightarrow>
          (case parse_year_month end_month_str of
             Inl e \<Rightarrow> Inl e
           | Inr (end_year, end_month) \<Rightarrow>
               (case first_of_month start_year start_month of
                  Inl e \<Rightarrow> Inl e
                | Inr current_date \<Rightarrow> months_loop current_date end_year end_month [])))"

text \<open>
  The months from a start to an end, as the claim describes them: months are numbered
  consecutively (\<open>month_index\<close>), so the months from \<open>a\<close> through \<open>b\<close> are the indices
  from that of \<open>a\<close> to that of \<open>b\<close>. \<open>valid_ym\<close> holds of the years and months that
  \<^verbatim>\<open>datetime.date\<close> accepts.
\<close>

definition month_index :: "nat \<times> nat \<Rightarrow> nat" where
  "month_index d = 12 * fst d + (snd d - 1)"

definition month_of_index :: "nat \<Rightarrow> nat \<times> nat" where
  "month_of_index i = (i div 12, i mod 12 + 1)"

definition valid_ym :: "nat \<times> nat \<Rightarrow> bool" where
  "valid_ym d = (1 \<le> fst d \<and> fst d \<le> 9999 \<and> 1 \<le> snd d \<and> snd d \<le> 12)"

text \<open>
  The well-formed string \<^verbatim>\<open>YYYY-MM\<close> of a year and a month, as the caller writes the
  arguments: four digits, a dash, two digits.
\<close>

definition ym_string :: "nat \<times> nat \<Rightarrow> string" where
  "ym_string d = zfill 4 (fst d) @ ''-'' @ zfill 2 (snd d)"

section \<open>Data frames and month tables\<close>

text \<open>
  A cell of a text column of a pandas data frame: a Python string, or the missing value
  \<^verbatim>\<open>NaN\<close>. Amounts are exact rationals, and a sum of amounts is the exact sum: the
  rounding of Python's floats is not part of this model, so it says of a sum which amounts
  are added, and nothing about the last digits of the float that the code computes.
\<close>

datatype cell = Str string | NaN

record row =
  date :: cell
  category :: cell
  amount :: rat
  type :: cell
  "note" :: cell

type_synonym dataframe = "row list"

text \<open>
  A pandas series indexed by category: the index labels with their values, in the order
  of the series.
\<close>

type_synonym series = "(string \<times> rat) list"

text \<open>
  One line of a month's CSV file below its header: the five fields as text (the amount as
  the number its decimal text denotes). The quoting of commas and quotes by the CSV writer
  is undone by the reader and is not part of the model.
\<close>

record csv_row =
  csv_date :: string
  csv_category :: string
  csv_amount :: rat
  csv_type :: string
  csv_note :: string

text \<open>
  \<^verbatim>\<open>DataFrame.to_csv(path, index=False)\<close>: a string is written as it is, a missing value
  as the empty field.
\<close>

definition write_field :: "cell \<Rightarrow> string" where
  "write_field c = (case c of Str s \<Rightarrow> s | NaN \<Rightarrow> [])"

definition to_csv :: "dataframe \<Rightarrow> csv_row list" where
  "to_csv df = map (\<lambda>r. \<lparr>csv_date = write_field (date r), csv_category = write_field (category r),
                          csv_amount = amount r, csv_type = write_field (type r),
                          csv_note = write_field (note r)\<rparr>) df"

text \<open>
  \<^verbatim>\<open>pd.read_csv(path)\<close> with its defaults: a field that is empty or one of the default
  missing-value markers is read as \<^verbatim>\<open>NaN\<close>, any other field of a text column as the
  string. (pandas also re-types a column all of whose fields are numerals or booleans; such
  text is outside this model, see \<open>kept_as_text\<close> below.)
\<close>

definition na_values :: "string list" where
  "na_values = ['''', ''#N/A'', ''#N/A N/A'', ''#NA'', ''-1.#IND'', ''-1.#QNAN'', ''-NaN'',
     ''-nan'', ''1.#IND'', ''1.#QNAN'', ''<NA>'', ''N/A'', ''NA'', ''NULL'', ''NaN'', ''None'',
     ''n/a'', ''nan'', ''null'']"

definition read_field :: "string \<Rightarrow> cell" where
  "read_field s = (if s \<in> set na_values then NaN else Str s)"

definition read_csv :: "csv_row list \<Rightarrow> dataframe" where
  "read_csv rows = map (\<lambda>c. \<lparr>date = read_field (csv_date c), category = read_field (csv_category c),
                             amount = csv_amount c, type = read_field (csv_type c),
                             note = read_field (csv_note c)\<rparr>) rows"

text \<open>
  The directories of the ledger: \<^verbatim>\<open>DATA_DIR\<close> maps a month to the lines of
  \<^verbatim>\<open><month>.csv\<close>, \<^verbatim>\<open>REPORT_DIR\<close> holds the Markdown reports by name and the chart images
  by file name. \<open>usable\<close> tells for which month keys the operating system can create or
  rewrite \<^verbatim>\<open>DATA_DIR/<month>.csv\<close>: a key with a path separator names a file in another
  directory, which as a rule does not exist, and a file may be protected against writing.
\<close>

record 'r ledger_fs =
  data_dir :: "string \<rightharpoonup> csv_row list"
  report_dir :: "string \<rightharpoonup> 'r"
  png_files :: "string set"
  usable :: "string \<Rightarrow> bool"

text \<open>
  \<^verbatim>\<open>ensure_csv\<close>: a table that does not exist is created with the header only; when the
  file cannot be created, \<^verbatim>\<open>to_csv\<close> raises and nothing is written.
\<close>

definition ensure_csv :: "'r ledger_fs \<Rightarrow> string \<Rightarrow> py_error + 'r ledger_fs" where
  "ensure_csv fs month =
     (if data_dir fs month = None then
        (if usable fs month then Inr (fs\<lparr>data_dir := (data_dir fs)(month \<mapsto> [])\<rparr>)
         else Inl OSError)
      else Inr fs)"

text \<open>\<^verbatim>\<open>pd.read_csv(path)\<close> on the table of a month that \<^verbatim>\<open>ensure_csv\<close> has made sure of.\<close>

definition read_month :: "'r ledger_fs \<Rightarrow> string \<Rightarrow> dataframe" where
  "read_month fs month = (case data_dir fs month of None \<Rightarrow> [] | Some rows \<Rightarrow> read_csv rows)"

text \<open>
  \<^verbatim>\<open>ledger.add_record\<close>. The result is the disk afterwards and the exception, if one ended
  the call. The amount arrives as a float from every caller (\<^verbatim>\<open>argparse\<close>, the form of the
  web page, the \<^verbatim>\<open>Record\<close> of the REST interface), so \<^verbatim>\<open>float(amount)\<close> changes nothing.
\<close>

definition add_record ::
  "'r ledger_fs \<Rightarrow> string \<Rightarrow> string \<Rightarrow> rat \<Rightarrow> string \<Rightarrow> string \<Rightarrow> 'r ledger_fs \<times> py_error option" where
  "add_record fs date_str category_str amount_val record_type note_str =
     (let month = take 7 date_str
      in case ensure_csv fs month of
           Inl e \<Rightarrow> (fs, Some e)
         | Inr fs1 \<Rightarrow>
             (let df = read_month fs1 month;
                  new_record = \<lparr>date = Str date_str, category = Str category_str,
                                amount = amount_val, type = Str record_type, note = Str note_str\<rparr>;
                  df' = df @ [new_record]
              in if usable fs1 month
                 then (fs1\<lparr>data_dir := (data_dir fs1)(month \<mapsto> to_csv df')\<rparr>, None)
                 else (fs1, Some OSError)))"

text \<open>\<^verbatim>\<open>add_record\<close> of the REST module \<^verbatim>\<open>api.py\<close>: the same steps on a \<^verbatim>\<open>Record\<close>.\<close>

definition api_add_record ::
  "'r ledger_fs \<Rightarrow> string \<Rightarrow> string \<Rightarrow> rat \<Rightarrow> string \<Rightarrow> string \<Rightarrow> 'r ledger_fs \<times> py_error option" where
  "api_add_record fs date_str category_str amount_val record_type note_str =
     (let month = take 7 date_str
      in case ensure_csv fs month of
           Inl e \<Rightarrow> (fs, Some e)
         | Inr fs1 \<Rightarrow>
             (let df = read_month fs1 month;
                  new_record = \<lparr>date = Str date_str, category = Str category_str,
                                amount = amount_val, type = Str record_type, note = Str note_str\<rparr>;
                  df' = df @ [new_record]
              in if usable fs1 month
                 then (fs1\<lparr>data_dir := (data_dir fs1)(month \<mapsto> to_csv df')\<rparr>, None)
                 else (fs1, Some OSError)))"

text \<open>\<^verbatim>\<open>ledger_pro.get_monthly_data\<close>: the month's table, empty when there is no file.\<close>

definition get_monthly_data :: "'r ledger_fs \<Rightarrow> string \<Rightarrow> dataframe" where
  "get_monthly_data fs month =
     (case data_dir fs month of Some rows \<Rightarrow> read_csv rows | None \<Rightarrow> [])"

section \<open>Calendar dates\<close>

text \<open>
  A pandas \<^verbatim>\<open>Timestamp\<close> at midnight, or a \<^verbatim>\<open>datetime.date\<close>: year, month and day,
  compared in that order.
\<close>

type_synonym timestamp = "nat \<times> nat \<times> nat"

definition is_leap :: "nat \<Rightarrow> bool" where
  "is_leap y = (y mod 4 = 0 \<and> (y mod 100 \<noteq> 0 \<or> y mod 400 = 0))"

definition days_in_month :: "nat \<Rightarrow> nat \<Rightarrow> nat" where
  "days_in_month y m =
     (if m = 2 then (if is_leap y then 29 else 28)
      else if m \<in> {4, 6, 9, 11} then 30 else 31)"

fun next_day :: "timestamp \<Rightarrow> timestamp" where
  "next_day (y, m, d) =
     (if d < days_in_month y m then (y, m, d + 1)
      else if m < 12 then (y, m + 1, 1)
      else (y + 1, 1, 1))"

definition add_days :: "nat \<Rightarrow> timestamp \<Rightarrow> timestamp" where
  "add_days n t = (next_day ^^ n) t"

text \<open>\<^verbatim>\<open>ts.replace(day=1)\<close>, \<^verbatim>\<open>ts + pd.DateOffset(months=1)\<close> and \<^verbatim>\<open>ts - pd.DateOffset(days=1)\<close>.\<close>

fun replace_day1 :: "timestamp \<Rightarrow> timestamp" where
  "replace_day1 (y, m, d) = (y, m, 1)"

fun add_month :: "timestamp \<Rightarrow> timestamp" where
  "add_month (y, m, d) =
     (if m = 12 then (y + 1, 1, min d (days_in_month (y + 1) 1))
      else (y, m + 1, min d (days_in_month y (m + 1))))"

fun prev_day :: "timestamp \<Rightarrow> timestamp" where
  "prev_day (y, m, d) =
     (if 1 < d then (y, m, d - 1)
      else if 1 < m then (y, m - 1, days_in_month y (m - 1))
      else (y - 1, 12, 31))"

text \<open>
  \<^verbatim>\<open>pd.to_datetime\<close> on one cell of the date column. A missing value becomes \<^verbatim>\<open>NaT\<close>
  (\<open>None\<close>). The model reads the format the ledger writes, \<^verbatim>\<open>YYYY-MM-DD\<close>, within the
  range of nanosecond timestamps (1677-09-22 to 2262-04-11); other text is rejected with
  \<open>ValueError\<close> (pandas accepts further spellings of dates, which are outside the model).
\<close>

fun parse_iso_date :: "string \<Rightarrow> timestamp option" where
  "parse_iso_date [y1, y2, y3, y4, s1, m1, m2, s2, d1, d2] =
     (if list_all is_digit [y1, y2, y3, y4, m1, m2, d1, d2] \<and> s1 = CHR ''-'' \<and> s2 = CHR ''-''
      then (let y = digits_val [y1, y2, y3, y4]; m = digits_val [m1, m2]; d = digits_val [d1, d2]
            in if 1 \<le> m \<and> m \<le> 12 \<and> 1 \<le> d \<and> d \<le> days_in_month y m
                  \<and> (1677, 9, 22) \<le> (y, m, d) \<and> (y, m, d) \<le> (2262, 4, 11)
               then Some (y, m, d) else None)
      else None)"
| "parse_iso_date _ = None"

definition to_datetime :: "cell \<Rightarrow> py_error + timestamp option" where
  "to_datetime c =
     (case c of
        NaN \<Rightarrow> Inr None
      | Str s \<Rightarrow> (case parse_iso_date s of None \<Rightarrow> Inl ValueError | Some t \<Rightarrow> Inr (Some t)))"

text \<open>\<^verbatim>\<open>pd.to_datetime\<close> on the whole column: the first cell that does not parse raises.\<close>

fun to_datetime_column :: "cell list \<Rightarrow> py_error + timestamp option list" where
  "to_datetime_column [] = Inr []"
| "to_datetime_column (c # cs) =
     (case to_datetime c of
        Inl e \<Rightarrow> Inl e
      | Inr t \<Rightarrow> (case to_datetime_column cs of Inl e \<Rightarrow> Inl e | Inr ts \<Rightarrow> Inr (t # ts)))"

section \<open>The weekly windows of export\_md\<close>

text \<open>
  The \<^verbatim>\<open>while\<close> loop of \<^verbatim>\<open>ledger.export_md\<close> over the weeks: each round yields the
  number, the first and the last day of one window; the summary of a window is computed from
  these by \<open>weekly_section\<close> below.
\<close>

function weekly_loop :: "timestamp \<Rightarrow> timestamp \<Rightarrow> nat \<Rightarrow> (nat \<times> timestamp \<times> timestamp) list" where
  "weekly_loop current_week_start end_of_month week_num =
     (if current_week_start \<le> end_of_month then
        (let w = add_days 6 current_week_start;
             current_week_end = (if w > end_of_month then end_of_month else w)
         in (week_num, current_week_start, current_week_end) #
            weekly_loop (next_day current_week_end) end_of_month (week_num + 1))
      else [])"
  by pat_completeness auto
termination
proof (relation "measures [\<lambda>(c, e, n). fst e + 1 - fst c,
                           \<lambda>(c, e, n). max 12 (fst (snd e)) + 1 - fst (snd c),
                           \<lambda>(c, e, n). 32 - snd (snd c)]", goal_cases)
  case 1
  show ?case by simp
next
  case (2 c e n w we)
  have dim: "\<And>y m. days_in_month y m \<le> 31" by (simp add: days_in_month_def)
  have step: "\<And>y m d. (case next_day (y, m, d) of (y', m', d') \<Rightarrow>
        y < y' \<or> (y' = y \<and> m < m' \<and> m' \<le> 12) \<or> (y' = y \<and> m' = m \<and> d' = d + 1 \<and> d' \<le> 31))"
  proof -
    fix y m d :: nat
    have "days_in_month y m \<le> 31" by (rule dim)
    then have "d < days_in_month y m \<Longrightarrow> d + 1 \<le> 31" by arith
    then show "(case next_day (y, m, d) of (y', m', d') \<Rightarrow>
        y < y' \<or> (y' = y \<and> m < m' \<and> m' \<le> 12) \<or> (y' = y \<and> m' = m \<and> d' = d + 1 \<and> d' \<le> 31))"
      by auto
  qed
  have mono: "(case (next_day ^^ k) (y, m, d) of (y', m', d') \<Rightarrow>
        y < y' \<or> (y' = y \<and> m < m' \<and> m' \<le> 12) \<or> (y' = y \<and> m' = m \<and> d \<le> d'))" for k y m d
  proof (induction k)
    case 0
    show ?case by simp
  next
    case (Suc k)
    obtain y1 m1 d1 where t1: "(next_day ^^ k) (y, m, d) = (y1, m1, d1)"
      by (cases "(next_day ^^ k) (y, m, d)") auto
    obtain y2 m2 d2 where t2: "next_day (y1, m1, d1) = (y2, m2, d2)"
      by (cases "next_day (y1, m1, d1)") auto
    from Suc t1 have a: "y < y1 \<or> (y1 = y \<and> m < m1 \<and> m1 \<le> 12) \<or> (y1 = y \<and> m1 = m \<and> d \<le> d1)" by simp
    from step[of y1 m1 d1] t2 have b: "y1 < y2 \<or> (y2 = y1 \<and> m1 < m2 \<and> m2 \<le> 12) \<or> (y2 = y1 \<and> m2 = m1 \<and> d2 = d1 + 1 \<and> d2 \<le> 31)" by simp
    from a b have "y < y2 \<or> (y2 = y \<and> m < m2 \<and> m2 \<le> 12) \<or> (y2 = y \<and> m2 = m \<and> d \<le> d2)" by auto
    then show ?case using t1 t2 by simp
  qed
  obtain y m d where c: "c = (y, m, d)" by (cases c) auto
  obtain ey em ed where e: "e = (ey, em, ed)" by (cases e) auto
  obtain wy wm wd where we: "we = (wy, wm, wd)" by (cases we) auto
  obtain ny nm nd where n: "next_day we = (ny, nm, nd)" by (cases "next_day we") auto
  have le: "y < ey \<or> (y = ey \<and> (m < em \<or> (m = em \<and> d \<le> ed)))"
    using 2(1) c e by (auto simp: less_eq_prod_def less_prod_def)
  have wge: "y < wy \<or> (wy = y \<and> m < wm \<and> wm \<le> max 12 em) \<or> (wy = y \<and> wm = m \<and> d \<le> wd)"
  proof (cases "e < w")
    case True
    then have "we = e" using 2(3) by simp
    then show ?thesis using le we e by auto
  next
    case False
    then have "we = (next_day ^^ 6) c" using 2(2,3) by (simp add: add_days_def)
    then show ?thesis using mono[of y m d 6] c we by auto
  qed
  have st: "wy < ny \<or> (ny = wy \<and> wm < nm \<and> nm \<le> 12) \<or> (ny = wy \<and> nm = wm \<and> nd = wd + 1 \<and> nd \<le> 31)"
    using step[of wy wm wd] we n by simp
  have fin: "y < ny \<or> (ny = y \<and> m < nm \<and> nm \<le> max 12 em) \<or> (ny = y \<and> nm = m \<and> d < nd \<and> nd \<le> 31)"
    using wge st by auto
  show ?case using fin le c e n by auto
qed

declare weekly_loop.simps [simp del]

section \<open>Month keys, text that is kept, and the add command\<close>

text \<open>
  A month key of the shape \<^verbatim>\<open>YYYY-MM\<close>: four digits, a dash, two digits.
\<close>

fun ym_shaped :: "string \<Rightarrow> bool" where
  "ym_shaped [y1, y2, y3, y4, s1, m1, m2] =
     (list_all is_digit [y1, y2, y3, y4, m1, m2] \<and> s1 = CHR ''-'')"
| "ym_shaped _ = False"

text \<open>
  The invariant of the month tables: every line stored in the table keyed \<^verbatim>\<open>YYYY-MM\<close>
  has a date whose first seven characters are that key.
\<close>

definition month_table_inv :: "'r ledger_fs \<Rightarrow> bool" where
  "month_table_inv fs =
     (\<forall>month rows. ym_shaped month \<and> data_dir fs month = Some rows \<longrightarrow>
        (\<forall>r \<in> set rows. take 7 (csv_date r) = month))"








text \<open>
  The ledger before anything is written, in a directory where every name without a path
  separator can be created.
\<close>

definition plain_name :: "string \<Rightarrow> bool" where
  "plain_name name = (CHR ''/'' \<notin> set name)"

definition empty_fs :: "unit ledger_fs" where
  "empty_fs = \<lparr>data_dir = Map.empty, report_dir = Map.empty, png_files = {},
                usable = plain_name\<rparr>"

text \<open>
  \<^verbatim>\<open>datetime.datetime.strptime(date_str, "%Y-%m-%d")\<close>, as its regular expression reads
  the string: four digits for \<^verbatim>\<open>%Y\<close>; for \<^verbatim>\<open>%m\<close> the alternatives \<^verbatim>\<open>1[0-2]\<close>,
  \<^verbatim>\<open>0[1-9]\<close>, \<^verbatim>\<open>[1-9]\<close>; for \<^verbatim>\<open>%d\<close> the alternatives \<^verbatim>\<open>3[01]\<close>, \<^verbatim>\<open>[12]\<close> and a digit,
  \<^verbatim>\<open>0[1-9]\<close>, \<^verbatim>\<open>[1-9]\<close> and a blank before \<^verbatim>\<open>[1-9]\<close>, each tried in this order; nothing
  may remain after the day, and the date must exist (year from 1, day within the month).
\<close>

definition in_range :: "char \<Rightarrow> string \<Rightarrow> bool" where
  "in_range c cs = (c \<in> set cs)"

fun strptime_month :: "string \<Rightarrow> (nat \<times> string) option" where
  "strptime_month (a # b # rest) =
     (if a = CHR ''1'' \<and> in_range b ''012'' then Some (10 + digit_val b, rest)
      else if a = CHR ''0'' \<and> in_range b ''123456789'' then Some (digit_val b, rest)
      else if in_range a ''123456789'' then Some (digit_val a, b # rest)
      else None)"
| "strptime_month [a] = (if in_range a ''123456789'' then Some (digit_val a, []) else None)"
| "strptime_month [] = None"

fun strptime_day :: "string \<Rightarrow> (nat \<times> string) option" where
  "strptime_day (a # b # rest) =
     (if a = CHR ''3'' \<and> in_range b ''01'' then Some (30 + digit_val b, rest)
      else if in_range a ''12'' \<and> is_digit b then Some (10 * digit_val a + digit_val b, rest)
      else if a = CHR ''0'' \<and> in_range b ''123456789'' then Some (digit_val b, rest)
      else if in_range a ''123456789'' then Some (digit_val a, b # rest)
      else if a = CHR '' '' \<and> in_range b ''123456789'' then Some (digit_val b, rest)
      else None)"
| "strptime_day [a] = (if in_range a ''123456789'' then Some (digit_val a, []) else None)"
| "strptime_day [] = None"

definition strptime_ymd :: "string \<Rightarrow> py_error + timestamp" where
  "strptime_ymd s =
     (case s of
        y1 # y2 # y3 # y4 # dash1 # r1 \<Rightarrow>
          if list_all is_digit [y1, y2, y3, y4] \<and> dash1 = CHR ''-'' then
            (case strptime_month r1 of
               Some (m, dash2 # r2) \<Rightarrow>
                 if dash2 = CHR ''-'' then
                   (case strptime_day r2 of
                      Some (d, []) \<Rightarrow>
                        (let y = digits_val [y1, y2, y3, y4]
                         in if 1 \<le> y \<and> d \<le> days_in_month y m then Inr (y, m, d)
                            else Inl ValueError)
                    | _ \<Rightarrow> Inl ValueError)
                 else Inl ValueError
             | _ \<Rightarrow> Inl ValueError)
          else Inl ValueError
      | _ \<Rightarrow> Inl ValueError)"

text \<open>
  \<^verbatim>\<open>strftime("%Y-%m-%d")\<close>: the year without padding, the month and the day with two
  digits.
\<close>

definition strftime_ymd :: "timestamp \<Rightarrow> string" where
  "strftime_ymd t = (case t of (y, m, d) \<Rightarrow> str_nat y @ ''-'' @ zfill 2 m @ ''-'' @ zfill 2 d)"

text \<open>
  The \<^verbatim>\<open>add\<close> command of \<^verbatim>\<open>ledger.main\<close>, given today's date: the date argument
  \<^verbatim>\<open>1\<close> means today, \<^verbatim>\<open>-1\<close>, \<^verbatim>\<open>-2\<close>, \<^verbatim>\<open>-3\<close> the days before; any other argument must
  parse with \<^verbatim>\<open>strptime\<close>, or the command prints a message and returns without writing.
\<close>

definition main_add ::
  "'r ledger_fs \<Rightarrow> timestamp \<Rightarrow> string \<Rightarrow> string \<Rightarrow> rat \<Rightarrow> string \<Rightarrow> string \<Rightarrow>
     'r ledger_fs \<times> py_error option" where
  "main_add fs today date_arg category_arg amount_arg type_arg note_arg =
     (if date_arg = ''1'' then
        add_record fs (strftime_ymd today) category_arg amount_arg type_arg note_arg
      else if date_arg \<in> set [''-1'', ''-2'', ''-3''] then
        (let delta = (if date_arg = ''-1'' then 1 else if date_arg = ''-2'' then 2 else 3)
         in add_record fs (strftime_ymd ((prev_day ^^ delta) today))
              category_arg amount_arg type_arg note_arg)
      else (case strptime_ymd date_arg of
              Inl e \<Rightarrow> (fs, None)
            | Inr t \<Rightarrow> add_record fs date_arg category_arg amount_arg type_arg note_arg))"

section \<open>Aggregation\<close>

text \<open>
  \<^verbatim>\<open>df[df["type"] == t]\<close> and \<^verbatim>\<open>df["amount"].sum()\<close> (0 on an empty frame). The sum
  is the exact sum of the amounts; the float that the code computes is this number up to
  rounding.
\<close>

definition rows_of_type :: "string \<Rightarrow> dataframe \<Rightarrow> dataframe" where
  "rows_of_type t df = filter (\<lambda>r. type r = Str t) df"

definition amount_sum :: "dataframe \<Rightarrow> rat" where
  "amount_sum df = sum_list (map amount df)"

text \<open>
  \<^verbatim>\<open>df.groupby("category")["amount"].sum()\<close>: one entry for each category that occurs, in
  ascending order of the category names; rows whose category is missing belong to no group
  (\<^verbatim>\<open>dropna=True\<close> is the default).
\<close>

definition category_keys :: "dataframe \<Rightarrow> string list" where
  "category_keys df =
     sort (remdups (List.map_filter (\<lambda>r. case category r of Str k \<Rightarrow> Some k | NaN \<Rightarrow> None) df))"

definition groupby_category_sum :: "dataframe \<Rightarrow> series" where
  "groupby_category_sum df =
     map (\<lambda>k. (k, amount_sum (filter (\<lambda>r. category r = Str k) df))) (category_keys df)"

text \<open>The group of a category: the rows of the frame that carry it.\<close>

definition category_group :: "dataframe \<Rightarrow> string \<Rightarrow> dataframe" where
  "category_group df k = filter (\<lambda>r. category r = Str k) df"

text \<open>
  \<^verbatim>\<open>Series.sort_values(ascending=False)\<close>. pandas reverses the series, sorts it in
  ascending order with the sorting routine of the requested kind, and reverses the result.
  The code requests no kind, and the default (\<^verbatim>\<open>quicksort\<close>) is not specified to be
  stable; so the routine is a parameter \<open>kind\<close>, of which \<open>sorts_by_value\<close> says all that
  the library promises: it permutes the entries into ascending order of their values.
\<close>

definition sorts_by_value :: "(series \<Rightarrow> series) \<Rightarrow> bool" where
  "sorts_by_value kind = (\<forall>s. mset (kind s) = mset s \<and> sorted (map snd (kind s)))"

definition sort_values_desc :: "(series \<Rightarrow> series) \<Rightarrow> series \<Rightarrow> series" where
  "sort_values_desc kind s = rev (kind (rev s))"

text \<open>A stable routine, as one instance of the parameter.\<close>

definition stable_kind :: "series \<Rightarrow> series" where
  "stable_kind s = sort_key snd s"

text \<open>\<^verbatim>\<open>ledger_pro.calculate_monthly_summary\<close>.\<close>

definition calculate_monthly_summary :: "dataframe \<Rightarrow> rat \<times> rat \<times> rat" where
  "calculate_monthly_summary df_month =
     (let income = amount_sum (rows_of_type ''income'' df_month);
          expense = amount_sum (rows_of_type ''expense'' df_month);
          net = income - expense
      in (income, expense, net))"

text \<open>
  \<^verbatim>\<open>ledger.generate_report\<close>: the disk afterwards, and what it prints (nothing but a
  warning for a month without records) or the exception of \<^verbatim>\<open>ensure_csv\<close>.
\<close>

record printed_report =
  pr_income :: rat
  pr_expense :: rat
  pr_net :: rat
  pr_summary :: series

definition generate_report ::
  "(series \<Rightarrow> series) \<Rightarrow> 'r ledger_fs \<Rightarrow> string \<Rightarrow>
     'r ledger_fs \<times> (py_error + printed_report option)" where
  "generate_report kind fs month =
     (case ensure_csv fs month of
        Inl e \<Rightarrow> (fs, Inl e)
      | Inr fs1 \<Rightarrow>
          (let df = read_month fs1 month
           in if df = [] then (fs1, Inr None)
              else (let income = amount_sum (rows_of_type ''income'' df);
                        expense = amount_sum (rows_of_type ''expense'' df);
                        net = income - expense;
                        summary = sort_values_desc kind
                                    (groupby_category_sum (rows_of_type ''expense'' df))
                    in (fs1, Inr (Some \<lparr>pr_income = income, pr_expense = expense, pr_net = net,
                                         pr_summary = summary\<rparr>)))))"

text \<open>
  \<^verbatim>\<open>generate_report\<close> of \<^verbatim>\<open>api.py\<close>: the dictionary it returns; its summary is the grouped
  series as it is, not sorted by amount.
\<close>

definition api_generate_report ::
  "'r ledger_fs \<Rightarrow> string \<Rightarrow> 'r ledger_fs \<times> (py_error + printed_report)" where
  "api_generate_report fs month =
     (case ensure_csv fs month of
        Inl e \<Rightarrow> (fs, Inl e)
      | Inr fs1 \<Rightarrow>
          (let df = read_month fs1 month
           in if df = [] then
                (fs1, Inr \<lparr>pr_income = 0, pr_expense = 0, pr_net = 0, pr_summary = []\<rparr>)
              else (let income = amount_sum (rows_of_type ''income'' df);
                        expense = amount_sum (rows_of_type ''expense'' df);
                        net = income - expense;
                        summary = groupby_category_sum (rows_of_type ''expense'' df)
                    in (fs1, Inr \<lparr>pr_income = income, pr_expense = expense, pr_net = net,
                                   pr_summary = summary\<rparr>))))"

text \<open>
  The scenario of the specification: an expense of 25 for food on 2025-09-01 and a salary of
  5000 on 2025-09-05.
\<close>

definition scenario_fs :: "unit ledger_fs" where
  "scenario_fs =
     fst (add_record (fst (add_record empty_fs ''2025-09-01'' ''food'' 25 ''expense'' []))
       ''2025-09-05'' ''salary'' 5000 ''income'' [])"

section \<open>ledger.export\_md\<close>

text \<open>
  The data frame after \<^verbatim>\<open>df["date"] = pd.to_datetime(df["date"])\<close>: every row with its
  timestamp (\<open>None\<close> is \<^verbatim>\<open>NaT\<close>).
\<close>

type_synonym dated_frame = "(timestamp option \<times> row) list"

definition with_datetime :: "dataframe \<Rightarrow> py_error + dated_frame" where
  "with_datetime df =
     (case to_datetime_column (map date df) of Inl e \<Rightarrow> Inl e | Inr ts \<Rightarrow> Inr (zip ts df))"

text \<open>The timestamps of the date column that are not \<^verbatim>\<open>NaT\<close>: \<^verbatim>\<open>min\<close> and \<^verbatim>\<open>max\<close> skip the others.\<close>

definition known_dates :: "dated_frame \<Rightarrow> timestamp list" where
  "known_dates tdf = List.map_filter fst tdf"

text \<open>
  The weekly windows of \<^verbatim>\<open>export_md\<close>: from the first day of the month of the earliest
  date to the latest date (the end of its month, cut back to the latest date itself), in
  windows of seven days. With no date at all both bounds are \<^verbatim>\<open>NaT\<close> and the loop does
  not run.
\<close>

definition weekly_windows :: "dated_frame \<Rightarrow> (nat \<times> timestamp \<times> timestamp) list" where
  "weekly_windows tdf =
     (if known_dates tdf = [] then []
      else (let start_of_month = replace_day1 (Min (set (known_dates tdf)));
                end_of_month = prev_day (add_month (replace_day1 (Max (set (known_dates tdf)))));
                end_of_month = min end_of_month (Max (set (known_dates tdf)))
            in weekly_loop start_of_month end_of_month 1))"

text \<open>
  The rows of one window, \<^verbatim>\<open>weekly_df\<close>: the expenses dated from its first to its last day.
\<close>

definition weekly_df :: "dated_frame \<Rightarrow> timestamp \<Rightarrow> timestamp \<Rightarrow> dataframe" where
  "weekly_df tdf current_week_start current_week_end =
     map snd (filter (\<lambda>(t, r). (case t of None \<Rightarrow> False
                                    | Some d \<Rightarrow> current_week_start \<le> d \<and> d \<le> current_week_end)
                                  \<and> type r = Str ''expense'') tdf)"

record weekly_section =
  ws_week_num :: nat
  ws_start :: timestamp
  ws_end :: timestamp
  ws_summary :: series
  ws_total :: rat
  ws_pie :: string

text \<open>
  The body of the loop for one window: a section and a pie chart, when the window has
  expenses.
\<close>

definition weekly_section_of ::
  "(series \<Rightarrow> series) \<Rightarrow> string \<Rightarrow> dated_frame \<Rightarrow> nat \<times> timestamp \<times> timestamp \<Rightarrow> weekly_section option" where
  "weekly_section_of kind month tdf w =
     (case w of (week_num, current_week_start, current_week_end) \<Rightarrow>
        (let weekly_expense_summary =
               sort_values_desc kind
                 (groupby_category_sum (weekly_df tdf current_week_start current_week_end))
         in if weekly_expense_summary \<noteq> [] then
              Some \<lparr>ws_week_num = week_num, ws_start = current_week_start,
                     ws_end = current_week_end, ws_summary = weekly_expense_summary,
                     ws_total = sum_list (map snd weekly_expense_summary),
                     ws_pie = month @ ''_week'' @ str_nat week_num @ ''_pie.png''\<rparr>
            else None))"

text \<open>
  The Markdown report of a month, by its parts: the weekly sections, the listing of all
  rows (the date printed with \<^verbatim>\<open>strftime\<close>), the table of the expense summary, the three
  totals, and the names of the chart images it embeds after them.
\<close>

record month_report =
  mr_month :: string
  mr_weekly :: "weekly_section list"
  mr_listing :: "(timestamp \<times> cell \<times> rat \<times> cell \<times> cell) list"
  mr_summary :: series
  mr_income_total :: rat
  mr_expense_total :: rat
  mr_net_total :: rat
  mr_images :: "string list"

text \<open>The report that \<^verbatim>\<open>export_md\<close> of \<^verbatim>\<open>api.py\<close> writes: the rows as read, and the totals.\<close>

record api_report =
  ar_month :: string
  ar_listing :: dataframe
  ar_income_total :: rat
  ar_expense_total :: rat
  ar_net_total :: rat

section \<open>ledger\_pro.generate\_multi\_month\_report\<close>

text \<open>
  \<^verbatim>\<open>a.add(b, fill_value=0)\<close> on two series: the labels of both, each with the sum of its
  values, a label missing on one side counting 0 there. The labels of the result are in
  ascending order (the order of the aligned index matters only to the order among equal
  amounts after sorting).
\<close>

definition series_val :: "series \<Rightarrow> string \<Rightarrow> rat" where
  "series_val s k = (case map_of s k of Some v \<Rightarrow> v | None \<Rightarrow> 0)"

definition series_add :: "series \<Rightarrow> series \<Rightarrow> series" where
  "series_add a b =
     map (\<lambda>k. (k, series_val a k + series_val b k)) (sort (remdups (map fst a @ map fst b)))"

text \<open>
  \<^verbatim>\<open>df_month.sort_values(by="date")\<close>: the rows in the order of their dates, \<^verbatim>\<open>NaT\<close> last.
  (The order among rows of one date is not fixed by the default sorting routine; the sums
  and groupings computed from the sorted frame do not depend on it.)
\<close>

definition date_key :: "timestamp option \<times> row \<Rightarrow> nat \<times> timestamp" where
  "date_key p = (case fst p of None \<Rightarrow> (1, (0, 0, 0)) | Some d \<Rightarrow> (0, d))"

definition sort_by_date :: "dated_frame \<Rightarrow> dataframe" where
  "sort_by_date tdf = map snd (sort_key date_key tdf)"

text \<open>
  What the function has accumulated and printed after some months: the running totals, the
  merged category series, the list \<^verbatim>\<open>monthly_summary_data\<close> (month, income, expense, net)
  that it returns, and the two category summaries printed for each month.
\<close>

record multi_acc =
  total_income_all_months :: rat
  total_expense_all_months :: rat
  all_income_categories :: series
  all_expense_categories :: series
  monthly_summary_data :: "(string \<times> rat \<times> rat \<times> rat) list"
  printed_summaries :: "(string \<times> series \<times> series) list"

definition multi_acc_init :: multi_acc where
  "multi_acc_init = \<lparr>total_income_all_months = 0, total_expense_all_months = 0,
     all_income_categories = [], all_expense_categories = [], monthly_summary_data = [],
     printed_summaries = []\<rparr>"

text \<open>One round of the loop over the months.\<close>

definition multi_month_step ::
  "(series \<Rightarrow> series) \<Rightarrow> 'r ledger_fs \<Rightarrow> string \<Rightarrow> multi_acc \<Rightarrow> py_error + multi_acc" where
  "multi_month_step kind fs month acc =
     (let df_month = get_monthly_data fs month
      in if df_month = [] then Inr acc
         else (case with_datetime df_month of
                 Inl e \<Rightarrow> Inl e
               | Inr tdf \<Rightarrow>
                   (let df_month = sort_by_date tdf;
                        (income, expense, net) = calculate_monthly_summary df_month;
                        expense_summary = sort_values_desc kind
                          (groupby_category_sum (rows_of_type ''expense'' df_month));
                        income_summary = sort_values_desc kind
                          (groupby_category_sum (rows_of_type ''income'' df_month))
                    in Inr \<lparr>total_income_all_months = total_income_all_months acc + income,
                             total_expense_all_months = total_expense_all_months acc + expense,
                             all_income_categories =
                               (if income_summary \<noteq> []
                                then series_add (all_income_categories acc) income_summary
                                else all_income_categories acc),
                             all_expense_categories =
                               (if expense_summary \<noteq> []
                                then series_add (all_expense_categories acc) expense_summary
                                else all_expense_categories acc),
                             monthly_summary_data =
                               monthly_summary_data acc @ [(month, income, expense, net)],
                             printed_summaries =
                               printed_summaries acc @ [(month, expense_summary, income_summary)]\<rparr>)))"

fun multi_month_loop ::
  "(series \<Rightarrow> series) \<Rightarrow> 'r ledger_fs \<Rightarrow> string list \<Rightarrow> multi_acc \<Rightarrow> py_error + multi_acc" where
  "multi_month_loop kind fs [] acc = Inr acc"
| "multi_month_loop kind fs (month # months) acc =
     (case multi_month_step kind fs month acc of
        Inl e \<Rightarrow> Inl e
      | Inr acc' \<Rightarrow> multi_month_loop kind fs months acc')"

text \<open>
  The whole of \<^verbatim>\<open>generate_multi_month_report\<close>: the months in sorted order, then the
  totals; the merged category series are printed sorted by amount.
\<close>

definition generate_multi_month_report ::
  "(series \<Rightarrow> series) \<Rightarrow> 'r ledger_fs \<Rightarrow> string list \<Rightarrow> py_error + multi_acc" where
  "generate_multi_month_report kind fs months =
     (case multi_month_loop kind fs (sort months) multi_acc_init of
        Inl e \<Rightarrow> Inl e
      | Inr acc \<Rightarrow>
          Inr (acc\<lparr>all_income_categories := sort_values_desc kind (all_income_categories acc),
                   all_expense_categories := sort_values_desc kind (all_expense_categories acc)\<rparr>))"


section \<open>The reports written to REPORT\_DIR\<close>

text \<open>
  The Markdown of \<^verbatim>\<open>export_multi_month_md\<close>, by its parts: a section for each month with
  data (the rows as read, the month's totals, its two category summaries and the names of its
  chart images), then the merged category tables and the images of the charts over all months.
\<close>

record month_section =
  ms_month :: string
  ms_listing :: dataframe
  ms_income :: rat
  ms_expense :: rat
  ms_net :: rat
  ms_expense_summary :: series
  ms_income_summary :: series
  ms_images :: "string list"

record multi_month_report =
  mm_prefix :: string
  mm_sections :: "month_section list"
  mm_income_categories :: series
  mm_expense_categories :: series
  mm_images :: "string list"

datatype report_file =
  MonthReport month_report | MultiMonthReport multi_month_report | ApiReport api_report

text \<open>The expenses of a dated frame that have a date: the rows of the daily series.\<close>

definition dated_expenses :: "dated_frame \<Rightarrow> dated_frame" where
  "dated_expenses tdf = filter (\<lambda>(t, r). t \<noteq> None \<and> type r = Str ''expense'') tdf"

text \<open>
  \<^verbatim>\<open>ledger.export_md\<close>. The result is the file system afterwards and the exception, if one
  ended the call: the charts are saved before the listing is built, and the listing raises on
  a row without a date (\<^verbatim>\<open>NaT\<close> has no \<^verbatim>\<open>strftime\<close>). The files written under
  \<^verbatim>\<open>REPORT_DIR\<close> are taken to be writable.
\<close>

definition export_md ::
  "(series \<Rightarrow> series) \<Rightarrow> report_file ledger_fs \<Rightarrow> string \<Rightarrow> report_file ledger_fs \<times> py_error option" where
  "export_md kind fs month =
     (case ensure_csv fs month of
        Inl e \<Rightarrow> (fs, Some e)
      | Inr fs1 \<Rightarrow>
          (let df = read_month fs1 month
           in if df = [] then (fs1, None)
              else (case with_datetime df of
                 Inl e \<Rightarrow> (fs1, Some e)
               | Inr tdf \<Rightarrow>
                   (let weekly = List.map_filter (weekly_section_of kind month tdf) (weekly_windows tdf);
                        expense_summary = groupby_category_sum (rows_of_type ''expense'' df);
                        pie_path = (if expense_summary \<noteq> [] then [month @ ''_pie.png''] else []);
                        line_paths = (if dated_expenses tdf \<noteq> []
                                      then [month @ ''_line.png'', month @ ''_daily_line.png'']
                                      else []);
                        fs2 = fs1\<lparr>png_files := png_files fs1 \<union> set (map ws_pie weekly)
                                     \<union> set pie_path \<union> set line_paths\<rparr>;
                        income_total = amount_sum (rows_of_type ''income'' df);
                        expense_total = amount_sum (rows_of_type ''expense'' df);
                        net_total = income_total - expense_total
                    in if list_ex (\<lambda>(t, r). t = None) tdf then (fs2, Some ValueError)
                       else (fs2\<lparr>report_dir := (report_dir fs2)(month \<mapsto> MonthReport
                               \<lparr>mr_month = month, mr_weekly = weekly,
                                mr_listing = map (\<lambda>(t, r). (the t, category r, amount r, type r, note r)) tdf,
                                mr_summary = expense_summary,
                                mr_income_total = income_total, mr_expense_total = expense_total,
                                mr_net_total = net_total,
                                mr_images = pie_path @ line_paths\<rparr>)\<rparr>, None)))))"

text \<open>
  \<^verbatim>\<open>export_md\<close> of \<^verbatim>\<open>api.py\<close>: the listing and the totals of the month, with no chart.
  It raises when \<^verbatim>\<open>ensure_csv\<close> does; the report file is taken to be writable.
\<close>

definition api_export_md ::
  "report_file ledger_fs \<Rightarrow> string \<Rightarrow> report_file ledger_fs \<times> py_error option" where
  "api_export_md fs month =
     (case ensure_csv fs month of
        Inl e \<Rightarrow> (fs, Some e)
      | Inr fs1 \<Rightarrow>
          (let df = read_month fs1 month
           in (fs1\<lparr>report_dir := (report_dir fs1)(month \<mapsto> ApiReport
                 \<lparr>ar_month = month, ar_listing = df,
                  ar_income_total = amount_sum (rows_of_type ''income'' df),
                  ar_expense_total = amount_sum (rows_of_type ''expense'' df),
                  ar_net_total = amount_sum (rows_of_type ''income'' df)
                                 - amount_sum (rows_of_type ''expense'' df)\<rparr>)\<rparr>, None)))"

text \<open>The ledger before anything is written, with a reports directory for the reports above.\<close>

definition empty_reports_fs :: "report_file ledger_fs" where
  "empty_reports_fs = \<lparr>data_dir = Map.empty, report_dir = Map.empty, png_files = {},
                        usable = plain_name\<rparr>"

text \<open>
  A September with an expense of 40 for food on the 5th, an expense of 25 for the bus and an
  income of 5000 on the 9th.
\<close>

definition sept_fs :: "report_file ledger_fs" where
  "sept_fs =
     fst (add_record (fst (add_record (fst (add_record empty_reports_fs
       ''2025-09-05'' ''food'' 40 ''expense'' []))
       ''2025-09-09'' ''bus'' 25 ''expense'' [])) ''2025-09-09'' ''salary'' 5000 ''income'' [])"

section \<open>ledger\_pro.export\_multi\_month\_md\<close>








text \<open>The two months of the scenario again, with a reports directory.\<close>

definition jan_feb_reports_fs :: "report_file ledger_fs" where
  "jan_feb_reports_fs =
     fst (add_record (fst (add_record (fst (add_record empty_reports_fs
       ''2025-01-10'' ''food'' 100 ''expense'' []))
       ''2025-02-03'' ''food'' 50 ''expense'' [])) ''2025-02-04'' ''transport'' 20 ''expense'' [])"

text \<open>A series in descending order of its values.\<close>

definition sorted_desc :: "series \<Rightarrow> bool" where
  "sorted_desc s = sorted (rev (map snd s))"

text \<open>Both summaries printed for each month are in descending order.\<close>

definition printed_sorted :: "multi_acc \<Rightarrow> bool" where
  "printed_sorted acc =
     list_all (\<lambda>(m, es, is). sorted_desc es \<and> sorted_desc is) (printed_summaries acc)"








text \<open>The year and month of a date; a day later is never in an earlier month.\<close>

definition ym_of :: "timestamp \<Rightarrow> nat \<times> nat" where
  "ym_of t = (fst t, fst (snd t))"

text \<open>
  The windows of a month whose last transaction is on day \<open>D\<close>, as the claim lists them:
  window \<open>k + 1\<close> runs from day \<open>7k + 1\<close> to day \<open>7k + 7\<close>, the last one cut at \<open>D\<close>.
\<close>

definition month_windows :: "nat \<Rightarrow> nat \<Rightarrow> nat \<Rightarrow> (nat \<times> timestamp \<times> timestamp) list" where
  "month_windows y m D =
     map (\<lambda>k. (k + 1, (y, m, 7 * k + 1), (y, m, min (7 * k + 7) D))) [0..<(D + 6) div 7]"

text \<open>
  A dated frame of one month: it has a date, and every date it has is a day of the month
  \<open>m\<close> of the year \<open>y\<close>. \<open>last_day\<close> is the day of its latest date.
\<close>

definition single_month :: "nat \<Rightarrow> nat \<Rightarrow> dated_frame \<Rightarrow> bool" where
  "single_month y m tdf =
     (known_dates tdf \<noteq> [] \<and> 1 \<le> m \<and> m \<le> 12 \<and>
      (\<forall>t \<in> set (known_dates tdf). \<exists>d. t = (y, m, d) \<and> 1 \<le> d \<and> d \<le> days_in_month y m))"

definition last_day :: "dated_frame \<Rightarrow> nat" where
  "last_day tdf = snd (snd (Max (set (known_dates tdf))))"


text \<open>
  A September with one expense, of 10 on the 5th, whose category is the text \<^verbatim>\<open>NA\<close>.
\<close>

definition na_fs :: "report_file ledger_fs" where
  "na_fs = fst (add_record empty_reports_fs ''2025-09-05'' ''NA'' 10 ''expense'' [])"

section \<open>Properties of get\_months\_in\_range\<close>

lemma month_of_index_inv:
  assumes "valid_ym d" shows "month_of_index (month_index d) = d"
proof (cases d)
  case (Pair y m)
  then have m: "1 \<le> m" "m \<le> 12" using assms by (auto simp: valid_ym_def)
  obtain k where k: "m = Suc k" "k < 12" using m by (cases m) auto
  have "(12 * y + k) div 12 = y" using k by simp
  moreover have "(12 * y + k) mod 12 = k" using k by simp
  ultimately show ?thesis using Pair k by (simp add: month_of_index_def month_index_def)
qed

lemma months_loop_ok:
  "valid_ym cur \<Longrightarrow> valid_ym (ey, em) \<Longrightarrow> (ey, em) \<noteq> (9999, 12) \<Longrightarrow>
   months_loop cur ey em acc =
     Inr (acc @ map (strftime_ym \<circ> month_of_index) [month_index cur ..< Suc (month_index (ey, em))])"
proof (induction cur ey em acc rule: months_loop.induct)
  case (1 cur ey em months)
  have fe: "first_of_month ey em = Inr (ey, em)"
    using "1.prems"(2) by (simp add: first_of_month_def valid_ym_def)
  show ?case
  proof (cases "ym_le cur (ey, em)")
    case False
    then have "month_index (ey, em) < month_index cur"
      using "1.prems" by (auto simp: ym_le_def month_index_def valid_ym_def)
    then show ?thesis using False fe by (subst months_loop.simps) simp
  next
    case True
    define nxt where "nxt = (if snd cur = 12 then (fst cur + 1, 1) else (fst cur, snd cur + 1))"
    have lt: "fst cur < 9999 \<or> snd cur < 12"
      using True "1.prems" by (auto simp: ym_le_def valid_ym_def)
    have vn: "valid_ym nxt" using lt "1.prems"(1) by (auto simp: nxt_def valid_ym_def)
    have fn: "(if snd cur = 12 then first_of_month (fst cur + 1) 1
                   else first_of_month (fst cur) (snd cur + 1)) = Inr nxt"
      using lt "1.prems"(1) unfolding nxt_def first_of_month_def valid_ym_def by auto
    have idx: "month_index nxt = Suc (month_index cur)"
      using "1.prems"(1) by (auto simp: nxt_def month_index_def valid_ym_def)
    have le: "month_index cur \<le> month_index (ey, em)"
      using True "1.prems" by (auto simp: ym_le_def month_index_def valid_ym_def)
    have IH: "months_loop nxt ey em (months @ [strftime_ym cur]) =
       Inr ((months @ [strftime_ym cur]) @ map (strftime_ym \<circ> month_of_index) [month_index nxt ..< Suc (month_index (ey, em))])"
      using "1.IH"[OF fe True fn vn "1.prems"(2) "1.prems"(3)] .
    have "months_loop cur ey em months = months_loop nxt ey em (months @ [strftime_ym cur])"
      using True fe fn by (subst months_loop.simps) simp
    also have "\<dots> = Inr (months @ map (strftime_ym \<circ> month_of_index) [month_index cur ..< Suc (month_index (ey, em))])"
    proof -
      have "[month_index cur ..< Suc (month_index (ey, em))] =
            month_index cur # [month_index nxt ..< Suc (month_index (ey, em))]"
        using le idx by (simp add: upt_conv_Cons del: upt_Suc)
      then show ?thesis using IH month_of_index_inv[OF "1.prems"(1)] by simp
    qed
    finally show ?thesis .
  qed
qed

lemma months_loop_overflow:
  "valid_ym cur \<Longrightarrow> months_loop cur 9999 12 acc = Inl ValueError"
proof (induction cur "9999::nat" "12::nat" acc rule: months_loop.induct)
  case (1 cur months)
  have fe: "first_of_month 9999 12 = Inr (9999, 12)" by (simp add: first_of_month_def)
  have le: "ym_le cur (9999, 12)" using "1.prems" by (auto simp: ym_le_def valid_ym_def)
  show ?case
  proof (cases "cur = (9999, 12)")
    case True
    then show ?thesis by (subst months_loop.simps) (simp add: first_of_month_def ym_le_def)
  next
    case False
    define nxt where "nxt = (if snd cur = 12 then (fst cur + 1, 1) else (fst cur, snd cur + 1))"
    have lt: "fst cur < 9999 \<or> snd cur < 12"
      using False "1.prems" by (cases cur) (auto simp: valid_ym_def)
    have vn: "valid_ym nxt" using lt "1.prems"(1) by (auto simp: nxt_def valid_ym_def)
    have fn: "(if snd cur = 12 then first_of_month (fst cur + 1) 1
                   else first_of_month (fst cur) (snd cur + 1)) = Inr nxt"
      using lt "1.prems"(1) unfolding nxt_def first_of_month_def valid_ym_def by auto
    have "months_loop cur 9999 12 months = months_loop nxt 9999 12 (months @ [strftime_ym cur])"
      using le fe fn by (subst months_loop.simps) simp
    then show ?thesis using "1.hyps"[OF fe le fn vn] by simp
  qed
qed


lemma digit_cases: "n mod 10 \<in> {0,1,2,3,4,5,6,7,8,9::nat}"
proof -
  have "n mod 10 < 10" by simp
  then show ?thesis by (simp only: insert_iff empty_iff) arith
qed

lemma is_digit_digit_char: "is_digit (digit_char n)"
  using digit_cases[of n] unfolding is_digit_def digit_char_def by (elim insertE) simp_all

lemma digit_val_digit_char: "digit_val (digit_char n) = n mod 10"
  using digit_cases[of n] unfolding digit_val_def digit_char_def by (elim insertE) simp_all

lemma digit_char_not_sign:
  "digit_char n \<noteq> CHR ''-''" "digit_char n \<noteq> CHR ''+''"
  "CHR ''-'' \<noteq> digit_char n" "CHR ''+'' \<noteq> digit_char n"
  using is_digit_digit_char[of n] by (auto simp: is_digit_def)

lemma zfill_digits: "list_all is_digit (zfill w n)"
  by (induction w n rule: zfill.induct) (simp_all add: is_digit_digit_char)

lemma zfill_no_dash: "CHR ''-'' \<notin> set (zfill w n)"
  by (induction w n rule: zfill.induct) (simp_all add: digit_char_not_sign)

lemma zfill_no_plus: "CHR ''+'' \<notin> set (zfill w n)"
  by (induction w n rule: zfill.induct) (simp_all add: digit_char_not_sign)

lemma zfill_length: "length (zfill w n) = w"
  by (induction w n rule: zfill.induct) simp_all

lemma digits_val_snoc: "digits_val (s @ [c]) = 10 * digits_val s + digit_val c"
  by (simp add: digits_val_def)

lemma digits_val_zfill: "digits_val (zfill w n) = n mod 10 ^ w"
proof (induction w n rule: zfill.induct)
  case (1 n)
  then show ?case by (simp add: digits_val_def)
next
  case (2 w n)
  have "10 * (n div 10 mod 10 ^ w) + n mod 10 = n mod (10 * 10 ^ w)"
    by (simp add: mod_mult2_eq add.commute)
  then show ?case using 2 by (simp add: digits_val_snoc digit_val_digit_char)
qed

lemma py_int_zfill: "0 < w \<Longrightarrow> n < 10 ^ w \<Longrightarrow> py_int (zfill w n) = Inr n"
proof -
  assume w: "0 < w" and n: "n < 10 ^ w"
  have ne: "zfill w n \<noteq> []" using zfill_length[of w n] w by auto
  have "(case zfill w n of c # cs \<Rightarrow> if c = CHR ''+'' then cs else zfill w n | [] \<Rightarrow> zfill w n) = zfill w n"
    using zfill_no_plus[of w n] by (cases "zfill w n") auto
  then show ?thesis using ne n by (simp add: py_int_def zfill_digits digits_val_zfill)
qed

lemma split_dash_ne: "split_dash s \<noteq> []"
  by (induction s) (auto split: list.splits)

lemma split_dash_plain: "CHR ''-'' \<notin> set s \<Longrightarrow> split_dash s = [s]"
  by (induction s) auto

lemma split_dash_two:
  "CHR ''-'' \<notin> set a \<Longrightarrow> CHR ''-'' \<notin> set b \<Longrightarrow> split_dash (a @ CHR ''-'' # b) = [a, b]"
  by (induction a) (auto simp: split_dash_plain)

lemma parse_ym_string:
  "y \<le> 9999 \<Longrightarrow> m \<le> 99 \<Longrightarrow> parse_year_month (ym_string (y, m)) = Inr (y, m)"
proof -
  assume y: "y \<le> 9999" and m: "m \<le> 99"
  have s: "split_dash (ym_string (y, m)) = [zfill 4 y, zfill 2 m]"
    unfolding ym_string_def using split_dash_two[OF zfill_no_dash zfill_no_dash, of 4 y 2 m] by simp
  have "py_int (zfill 4 y) = Inr y" using y by (intro py_int_zfill) auto
  moreover have "py_int (zfill 2 m) = Inr m" using m by (intro py_int_zfill) auto
  ultimately show ?thesis using s by (simp add: parse_year_month_def)
qed

lemma zfill_4: "zfill 4 n = [digit_char (n div 1000), digit_char (n div 100), digit_char (n div 10), digit_char n]"
proof -
  have "zfill (Suc (Suc (Suc (Suc 0)))) n = [digit_char (n div 1000), digit_char (n div 100), digit_char (n div 10), digit_char n]"
    by (simp add: div_mult2_eq[symmetric])
  moreover have "(4::nat) = Suc (Suc (Suc (Suc 0)))" by simp
  ultimately show ?thesis by (simp only:)
qed

lemma zfill_2: "zfill 2 n = [digit_char (n div 10), digit_char n]"
proof -
  have "zfill (Suc (Suc 0)) n = [digit_char (n div 10), digit_char n]" by simp
  moreover have "(2::nat) = Suc (Suc 0)" by simp
  ultimately show ?thesis by (simp only:)
qed

lemma ym_string_chars:
  "ym_string (y, m) = [digit_char (y div 1000), digit_char (y div 100), digit_char (y div 10),
     digit_char y, CHR ''-'', digit_char (m div 10), digit_char m]"
  by (simp add: ym_string_def zfill_4 zfill_2)

lemma str_nat_1: "n < 10 \<Longrightarrow> str_nat n = [digit_char n]"
  by (subst str_nat.simps) simp

lemma str_nat_2: "10 \<le> n \<Longrightarrow> n < 100 \<Longrightarrow> str_nat n = [digit_char (n div 10), digit_char n]"
  by (subst str_nat.simps) (simp add: str_nat_1)

lemma str_nat_3:
  "100 \<le> n \<Longrightarrow> n < 1000 \<Longrightarrow> str_nat n = [digit_char (n div 100), digit_char (n div 10), digit_char n]"
proof -
  assume a: "100 \<le> n" "n < 1000"
  then have "10 \<le> n div 10" "n div 10 < 100" by simp_all
  then have "str_nat (n div 10) = [digit_char (n div 10 div 10), digit_char (n div 10)]"
    by (rule str_nat_2)
  then show ?thesis using a by (subst str_nat.simps) (simp add: div_mult2_eq[symmetric])
qed

lemma str_nat_4:
  "1000 \<le> n \<Longrightarrow> n < 10000 \<Longrightarrow>
   str_nat n = [digit_char (n div 1000), digit_char (n div 100), digit_char (n div 10), digit_char n]"
proof -
  assume a: "1000 \<le> n" "n < 10000"
  then have "100 \<le> n div 10" "n div 10 < 1000" by simp_all
  then have "str_nat (n div 10) =
      [digit_char (n div 10 div 100), digit_char (n div 10 div 10), digit_char (n div 10)]"
    by (rule str_nat_3)
  then show ?thesis using a by (subst str_nat.simps) (simp add: div_mult2_eq[symmetric])
qed

text \<open>
  From the year 1000 on \<^verbatim>\<open>strftime\<close> prints the well-formed string of the month; for an
  earlier year it prints fewer than four digits of the year.
\<close>

lemma strftime_ym_four_digits:
  "1000 \<le> y \<Longrightarrow> y \<le> 9999 \<Longrightarrow> strftime_ym (y, m) = ym_string (y, m)"
  by (simp add: strftime_ym_def ym_string_def str_nat_4 zfill_4)

lemma strftime_ym_three_digits:
  "100 \<le> y \<Longrightarrow> y \<le> 999 \<Longrightarrow> strftime_ym (y, m) = tl (ym_string (y, m))"
  by (simp add: strftime_ym_def ym_string_def str_nat_3 zfill_4)

lemma months_2024_11_to_2025_02: "map (strftime_ym \<circ> month_of_index) [month_index (2024, 11) ..< Suc (month_index (2025, 2))]
           = [''2024-11'', ''2024-12'', ''2025-01'', ''2025-02'']"
proof -
  have "[month_index (2024, 11) ..< Suc (month_index (2025, 2))] = [24298, 24299, 24300, 24301]"
    by (simp add: month_index_def upt_rec)
  then show ?thesis
    by (simp add: month_of_index_def strftime_ym_four_digits ym_string_chars digit_char_def)
qed

lemma months_0999_11_to_1000_01: "map (strftime_ym \<circ> month_of_index) [month_index (999, 11) ..< Suc (month_index (1000, 1))]
           = [''999-11'', ''999-12'', ''1000-01'']"
proof -
  have "[month_index (999, 11) ..< Suc (month_index (1000, 1))] = [11998, 11999, 12000]"
    by (simp add: month_index_def upt_rec)
  then show ?thesis
    by (simp add: month_of_index_def strftime_ym_four_digits strftime_ym_three_digits
          ym_string_chars digit_char_def)
qed

lemma get_months_loop_eq:
  assumes "valid_ym (sy, sm)" and "valid_ym (ey, em)"
  shows "get_months_in_range (ym_string (sy, sm)) (ym_string (ey, em)) =
           months_loop (sy, sm) ey em []"
proof -
  have ps: "parse_year_month (ym_string (sy, sm)) = Inr (sy, sm)"
    using assms(1) by (intro parse_ym_string) (auto simp: valid_ym_def)
  have pe: "parse_year_month (ym_string (ey, em)) = Inr (ey, em)"
    using assms(2) by (intro parse_ym_string) (auto simp: valid_ym_def)
  have fs: "first_of_month sy sm = Inr (sy, sm)"
    using assms(1) by (simp add: first_of_month_def valid_ym_def)
  show ?thesis by (simp add: get_months_in_range_def ps pe fs)
qed

text \<open>
  What \<^verbatim>\<open>get_months_in_range\<close> returns for a start and an end written \<^verbatim>\<open>YYYY-MM\<close> with
  a year from 1 to 9999 and a month from 1 to 12: the empty list when the start is after the
  end; otherwise the months from the start through the end, in ascending order and across
  year boundaries, each as \<^verbatim>\<open>strftime\<close> prints it, unless the end is December 9999: then
  the loop, which builds the date of the next month before it tests it, raises
  \<open>ValueError\<close> past the last month.
\<close>

lemma get_months_in_range_months:
  assumes "valid_ym (sy, sm)" and "valid_ym (ey, em)"
  shows "get_months_in_range (ym_string (sy, sm)) (ym_string (ey, em)) =
     (if \<not> ym_le (sy, sm) (ey, em) then Inr []
      else if (ey, em) = (9999, 12) then Inl ValueError
      else Inr (map (strftime_ym \<circ> month_of_index)
                  [month_index (sy, sm) ..< Suc (month_index (ey, em))]))"
proof -
  have g: "get_months_in_range (ym_string (sy, sm)) (ym_string (ey, em)) =
           months_loop (sy, sm) ey em []"
    using assms by (rule get_months_loop_eq)
  show ?thesis
  proof (cases "(ey, em) = (9999, 12)")
    case True
    then have e: "ey = 9999" "em = 12" by simp_all
    have "ym_le (sy, sm) (ey, em)"
      using assms(1) by (auto simp: e ym_le_def valid_ym_def)
    then show ?thesis using g months_loop_overflow[OF assms(1), of "[]"] by (simp add: e)
  next
    case False
    have r: "months_loop (sy, sm) ey em [] =
          Inr (map (strftime_ym \<circ> month_of_index)
                 [month_index (sy, sm) ..< Suc (month_index (ey, em))])"
      using months_loop_ok[OF assms(1) assms(2) False, of "[]"] by simp
    show ?thesis
    proof (cases "ym_le (sy, sm) (ey, em)")
      case True
      then show ?thesis using g r False by simp
    next
      case nle: False
      then have "month_index (ey, em) < month_index (sy, sm)"
        using assms by (auto simp: ym_le_def month_index_def valid_ym_def)
      then show ?thesis using g r nle by simp
    qed
  qed
qed

lemma get_months_in_range_2024_11_to_2025_02:
  "get_months_in_range ''2024-11'' ''2025-02'' =
     Inr [''2024-11'', ''2024-12'', ''2025-01'', ''2025-02'']"
proof -
  have a: "valid_ym (2024, 11)" and b: "valid_ym (2025, 2)" by (simp_all add: valid_ym_def)
  have s1: "ym_string (2024, 11) = ''2024-11''"
    by (simp add: ym_string_chars digit_char_def)
  have s2: "ym_string (2025, 2) = ''2025-02''"
    by (simp add: ym_string_chars digit_char_def)
  have le: "ym_le (2024, 11) (2025, 2)" by (simp add: ym_le_def)
  show ?thesis using get_months_in_range_months[OF a b] le
    by (simp add: s1 s2 months_2024_11_to_2025_02 del: upt_Suc)
qed

lemma get_months_in_range_reversed:
  "get_months_in_range ''2025-02'' ''2024-11'' = Inr []"
proof -
  have a: "valid_ym (2024, 11)" and b: "valid_ym (2025, 2)" by (simp_all add: valid_ym_def)
  have s1: "ym_string (2024, 11) = ''2024-11''"
    by (simp add: ym_string_chars digit_char_def)
  have s2: "ym_string (2025, 2) = ''2025-02''"
    by (simp add: ym_string_chars digit_char_def)
  have le: "\<not> ym_le (2025, 2) (2024, 11)" by (simp add: ym_le_def)
  show ?thesis using get_months_in_range_months[OF b a] le by (simp add: s1 s2)
qed

text \<open>
  Before the year 1000 the months come back without the leading zeros of the year.
\<close>

lemma get_months_in_range_0999_11_to_1000_01:
  "get_months_in_range ''0999-11'' ''1000-01'' = Inr [''999-11'', ''999-12'', ''1000-01'']"
proof -
  have a: "valid_ym (999, 11)" and b: "valid_ym (1000, 1)" by (simp_all add: valid_ym_def)
  have s1: "ym_string (999, 11) = ''0999-11''"
    by (simp add: ym_string_chars digit_char_def)
  have s2: "ym_string (1000, 1) = ''1000-01''"
    by (simp add: ym_string_chars digit_char_def)
  have le: "ym_le (999, 11) (1000, 1)" by (simp add: ym_le_def)
  show ?thesis
    using get_months_in_range_months[OF a b] le
    unfolding s1 s2 months_0999_11_to_1000_01 by simp
qed

text \<open>
  Claim C10, at the input where the code departs from it. The claim asks for the months from
  the start through the end for every pair of well-formed strings; for the range from
  \<^verbatim>\<open>9999-11\<close> to \<^verbatim>\<open>9999-12\<close> these are two months, but the call raises \<open>ValueError\<close>:
  after December 9999 has been appended the loop builds the date of the following month,
  which \<^verbatim>\<open>datetime.date\<close> refuses.
\<close>

theorem get_months_in_range_9999_12_raises:
  "get_months_in_range ''9999-11'' ''9999-12'' = Inl ValueError"
proof -
  have a: "valid_ym (9999, 11)" and b: "valid_ym (9999, 12)" by (simp_all add: valid_ym_def)
  have s1: "ym_string (9999, 11) = ''9999-11''"
    by (simp add: ym_string_chars digit_char_def)
  have s2: "ym_string (9999, 12) = ''9999-12''"
    by (simp add: ym_string_chars digit_char_def)
  show ?thesis
    using get_months_loop_eq[OF a b] months_loop_overflow[OF a, of "[]"] by (simp add: s1 s2)
qed

section \<open>Properties of the record store\<close>

lemma ensure_csv_Inr:
  assumes "ensure_csv fs m = Inr fs1"
  shows "data_dir fs1 = (if data_dir fs m = None then (data_dir fs)(m \<mapsto> []) else data_dir fs)"
    and "report_dir fs1 = report_dir fs" and "png_files fs1 = png_files fs"
    and "usable fs1 = usable fs" and "read_month fs1 m = read_month fs m"
proof -
  show "data_dir fs1 = (if data_dir fs m = None then (data_dir fs)(m \<mapsto> []) else data_dir fs)"
    using assms by (cases "data_dir fs m") (auto simp: ensure_csv_def split: if_splits)
  show "report_dir fs1 = report_dir fs" "png_files fs1 = png_files fs" "usable fs1 = usable fs"
    using assms by (auto simp: ensure_csv_def split: if_splits)
  show "read_month fs1 m = read_month fs m"
    using assms
    by (cases "data_dir fs m") (auto simp: ensure_csv_def read_month_def read_csv_def split: if_splits)
qed

lemma ensure_csv_Inl:
  "ensure_csv fs m = Inl e \<Longrightarrow> e = OSError \<and> data_dir fs m = None \<and> \<not> usable fs m"
  by (auto simp: ensure_csv_def split: if_splits)

lemma ensure_csv_present: "data_dir fs m \<noteq> None \<Longrightarrow> ensure_csv fs m = Inr fs"
  by (cases "data_dir fs m") (simp_all add: ensure_csv_def)

lemma ensure_csv_usable:
  "usable fs m \<Longrightarrow>
   ensure_csv fs m = Inr (if data_dir fs m = None then fs\<lparr>data_dir := (data_dir fs)(m \<mapsto> [])\<rparr> else fs)"
  by (simp add: ensure_csv_def)

lemma add_record_unusable:
  "\<not> usable fs (take 7 d) \<Longrightarrow> add_record fs d c a t n = (fs, Some OSError)"
  by (auto simp: add_record_def ensure_csv_def Let_def)

lemma add_record_usable:
  assumes "usable fs (take 7 d)"
  shows "add_record fs d c a t n =
     (fs\<lparr>data_dir := (data_dir fs)(take 7 d \<mapsto> to_csv (read_month fs (take 7 d) @
        [\<lparr>date = Str d, category = Str c, amount = a, type = Str t, note = Str n\<rparr>]))\<rparr>, None)"
  using assms by (auto simp: add_record_def ensure_csv_def Let_def read_month_def read_csv_def)

lemma data_dir_add_record_same:
  "usable fs (take 7 d) \<Longrightarrow>
   data_dir (fst (add_record fs d c a t n)) (take 7 d) =
     Some (to_csv (read_month fs (take 7 d) @
       [\<lparr>date = Str d, category = Str c, amount = a, type = Str t, note = Str n\<rparr>]))"
  by (simp add: add_record_usable)

lemma data_dir_add_record_other:
  "k \<noteq> take 7 d \<Longrightarrow> data_dir (fst (add_record fs d c a t n)) k = data_dir fs k"
  by (cases "usable fs (take 7 d)") (simp_all add: add_record_usable add_record_unusable)

lemma api_add_record_eq: "api_add_record fs d c a t n = add_record fs d c a t n"
  by (simp add: api_add_record_def add_record_def)

lemma na_values_not_ym_shaped: "list_all (\<lambda>s. \<not> ym_shaped (take 7 s)) na_values"
  unfolding na_values_def by (simp add: is_digit_def)

lemma ym_shaped_take_not_na:
  assumes "ym_shaped (take 7 s)" shows "s \<notin> set na_values"
  using assms na_values_not_ym_shaped by (auto simp: list_all_iff)

lemma write_read_field: "s \<notin> set na_values \<Longrightarrow> write_field (read_field s) = s"
  by (simp add: write_field_def read_field_def)

lemma csv_date_to_csv_read_csv:
  "r \<in> set (to_csv (read_csv rows)) \<Longrightarrow>
     \<exists>r0 \<in> set rows. csv_date r = write_field (read_field (csv_date r0))"
  by (auto simp: to_csv_def read_csv_def)

text \<open>
  Claim C9. Every append preserves the invariant of the month tables: if every line stored
  in a table keyed \<^verbatim>\<open>YYYY-MM\<close> has a date that begins with that key, then the same holds
  of the disk that \<^verbatim>\<open>add_record\<close> (of \<^verbatim>\<open>ledger.py\<close> and of \<^verbatim>\<open>api.py\<close>) leaves after
  appending any transaction, whether the write succeeds or fails: the record goes to the
  table named by the first seven characters of its own date, the dates already stored there
  are written back unchanged, and a write that fails changes nothing.
\<close>

theorem add_record_preserves_month_table_inv:
  assumes "month_table_inv fs"
  shows "month_table_inv (fst (add_record fs d c a t n))
       \<and> month_table_inv (fst (api_add_record fs d c a t n))"
proof -
  have "month_table_inv (fst (add_record fs d c a t n))"
  proof (cases "usable fs (take 7 d)")
    case False
    then show ?thesis using assms by (simp add: add_record_unusable)
  next
    case u: True
    show ?thesis
      unfolding month_table_inv_def
    proof (intro allI impI ballI, elim conjE)
      fix month rows r
      assume sh: "ym_shaped month"
        and dd: "data_dir (fst (add_record fs d c a t n)) month = Some rows"
        and r: "r \<in> set rows"
      show "take 7 (csv_date r) = month"
      proof (cases "month = take 7 d")
        case False
        then have "data_dir fs month = Some rows" using dd by (simp add: data_dir_add_record_other)
        then show ?thesis using assms sh r unfolding month_table_inv_def by blast
      next
        case True
        have rows: "rows = to_csv (read_month fs month) @
             [\<lparr>csv_date = d, csv_category = c, csv_amount = a, csv_type = t, csv_note = n\<rparr>]"
          using dd True data_dir_add_record_same[OF u, of c a t n]
          by (simp add: to_csv_def write_field_def)
        show ?thesis
        proof (cases "r \<in> set (to_csv (read_month fs month))")
          case False
          then have "r = \<lparr>csv_date = d, csv_category = c, csv_amount = a, csv_type = t, csv_note = n\<rparr>"
            using r rows by simp
          then show ?thesis using True by simp
        next
          case old: True
          then obtain rows0 where d0: "data_dir fs month = Some rows0"
            by (cases "data_dir fs month") (auto simp: read_month_def to_csv_def)
          then have "r \<in> set (to_csv (read_csv rows0))" using old by (simp add: read_month_def)
          then obtain r0 where r0: "r0 \<in> set rows0"
            and e: "csv_date r = write_field (read_field (csv_date r0))"
            using csv_date_to_csv_read_csv by blast
          have p: "take 7 (csv_date r0) = month"
            using assms sh d0 r0 unfolding month_table_inv_def by blast
          then have "csv_date r0 \<notin> set na_values" using sh ym_shaped_take_not_na by blast
          then show ?thesis using e p by (simp add: write_read_field)
        qed
      qed
    qed
  qed
  then show ?thesis by (simp add: api_add_record_eq)
qed

lemma to_csv_append:
  "to_csv (df @ [\<lparr>date = Str d, category = Str c, amount = a, type = Str t, note = Str n\<rparr>]) =
   to_csv df @ [\<lparr>csv_date = d, csv_category = c, csv_amount = a, csv_type = t, csv_note = n\<rparr>]"
  by (simp add: to_csv_def write_field_def)

text \<open>
  Claim C1, as the code has it. \<^verbatim>\<open>add_record\<close> checks neither the amount nor the date.
  Whenever the file named by the first seven characters of the date can be written, the call
  returns normally, for every date string, category, amount (negative ones too), type and
  note: that table then ends with the new line, and no other table changes. When that file
  cannot be created or written (as for the date \<^verbatim>\<open>01/09/2025\<close>, whose first seven
  characters name a file in a directory that does not exist), the call raises \<open>OSError\<close>,
  not a validation error, and the disk is as before. Only the \<^verbatim>\<open>add\<close> command of the
  command line looks at the date: an argument that is none of \<^verbatim>\<open>1\<close>, \<^verbatim>\<open>-1\<close>, \<^verbatim>\<open>-2\<close>,
  \<^verbatim>\<open>-3\<close> and that \<^verbatim>\<open>strptime\<close> rejects leaves the ledger as it was (the command prints
  a message and returns; no exception is raised); an argument that \<^verbatim>\<open>strptime\<close> accepts is
  passed to \<^verbatim>\<open>add_record\<close>. The amount is never checked.
\<close>

theorem add_record_no_validation:
  "(usable fs (take 7 d) \<longrightarrow>
      snd (add_record fs d c a t n) = None
      \<and> data_dir (fst (add_record fs d c a t n)) (take 7 d) =
          Some (to_csv (read_month fs (take 7 d)) @
            [\<lparr>csv_date = d, csv_category = c, csv_amount = a, csv_type = t, csv_note = n\<rparr>])
      \<and> (\<forall>k. k \<noteq> take 7 d \<longrightarrow> data_dir (fst (add_record fs d c a t n)) k = data_dir fs k))
   \<and> (\<not> usable fs (take 7 d) \<longrightarrow> add_record fs d c a t n = (fs, Some OSError))
   \<and> (d0 \<notin> set [''1'', ''-1'', ''-2'', ''-3''] \<and> strptime_ymd d0 = Inl ValueError
        \<longrightarrow> main_add fs today d0 c a t n = (fs, None))
   \<and> (d0 \<notin> set [''1'', ''-1'', ''-2'', ''-3''] \<and> strptime_ymd d0 = Inr t0
        \<longrightarrow> main_add fs today d0 c a t n = add_record fs d0 c a t n)"
proof (intro conjI impI allI)
  assume u: "usable fs (take 7 d)"
  show "snd (add_record fs d c a t n) = None" by (simp add: add_record_usable[OF u])
  show "data_dir (fst (add_record fs d c a t n)) (take 7 d) =
          Some (to_csv (read_month fs (take 7 d)) @
            [\<lparr>csv_date = d, csv_category = c, csv_amount = a, csv_type = t, csv_note = n\<rparr>])"
    by (simp add: data_dir_add_record_same[OF u] to_csv_append)
next
  fix k assume "k \<noteq> take 7 d"
  then show "data_dir (fst (add_record fs d c a t n)) k = data_dir fs k"
    by (rule data_dir_add_record_other)
next
  assume "\<not> usable fs (take 7 d)"
  then show "add_record fs d c a t n = (fs, Some OSError)" by (rule add_record_unusable)
next
  assume "d0 \<notin> set [''1'', ''-1'', ''-2'', ''-3''] \<and> strptime_ymd d0 = Inl ValueError"
  then show "main_add fs today d0 c a t n = (fs, None)" by (simp add: main_add_def)
next
  assume "d0 \<notin> set [''1'', ''-1'', ''-2'', ''-3''] \<and> strptime_ymd d0 = Inr t0"
  then show "main_add fs today d0 c a t n = add_record fs d0 c a t n"
    by (simp add: main_add_def)
qed

lemma strptime_month_13: "strptime_ymd ''2025-13-01'' = Inl ValueError"
  by (simp add: strptime_ymd_def is_digit_def in_range_def)

lemma strptime_ok_example: "strptime_ymd ''2025-09-01'' = Inr (2025, 9, 1)"
  by (simp add: strptime_ymd_def is_digit_def in_range_def digits_val_def digit_val_def days_in_month_def)

lemma usable_empty_fs:
  "usable empty_fs ''2025-09''" "\<not> usable empty_fs ''01/09/2''" "usable empty_fs ''yesterd''"
  by (simp_all add: empty_fs_def plain_name_def)

theorem add_record_no_validation_witness:
  "usable empty_fs ''2025-09'' \<and> \<not> usable empty_fs ''01/09/2''
   \<and> snd (add_record empty_fs ''2025-09-01'' ''food'' (- 5) ''expense'' []) = None
   \<and> data_dir (fst (add_record empty_fs ''2025-09-01'' ''food'' (- 5) ''expense'' [])) ''2025-09'' =
       Some [\<lparr>csv_date = ''2025-09-01'', csv_category = ''food'', csv_amount = - 5,
              csv_type = ''expense'', csv_note = []\<rparr>]
   \<and> add_record empty_fs ''01/09/2025'' ''food'' 5 ''expense'' [] = (empty_fs, Some OSError)
   \<and> main_add empty_fs (2025, 9, 2) ''2025-13-01'' ''food'' (- 5) ''expense'' [] = (empty_fs, None)
   \<and> main_add empty_fs (2025, 9, 2) ''2025-09-01'' ''food'' (- 5) ''expense'' [] =
       add_record empty_fs ''2025-09-01'' ''food'' (- 5) ''expense'' []"
  using add_record_no_validation[of empty_fs "''2025-09-01''" "''food''" "- 5" "''expense''" "[]"
      "''2025-13-01''" "(2025, 9, 2)" "(2025, 9, 1)"]
    add_record_no_validation[of empty_fs "''2025-09-01''" "''food''" "- 5" "''expense''" "[]"
      "''2025-09-01''" "(2025, 9, 2)" "(2025, 9, 1)"]
    add_record_no_validation[of empty_fs "''01/09/2025''" "''food''" "5" "''expense''" "[]"
      "''2025-09-01''" "(2025, 9, 2)" "(2025, 9, 1)"]
    usable_empty_fs
  by (simp add: strptime_month_13 strptime_ok_example read_month_def empty_fs_def to_csv_def)

text \<open>
  A transaction with the negative amount \<open>-5\<close> is not rejected: the append returns normally
  and writes its line. Nor is one with the date \<^verbatim>\<open>yesterday\<close>, which goes to a table named
  \<^verbatim>\<open>yesterd\<close>.
\<close>

theorem add_record_negative_amount_counterexample:
  "snd (add_record empty_fs ''2025-09-01'' ''food'' (- 5) ''expense'' []) = None
   \<and> data_dir (fst (add_record empty_fs ''2025-09-01'' ''food'' (- 5) ''expense'' [])) ''2025-09'' =
     Some [\<lparr>csv_date = ''2025-09-01'', csv_category = ''food'', csv_amount = - 5,
            csv_type = ''expense'', csv_note = []\<rparr>]
   \<and> snd (add_record empty_fs ''yesterday'' ''food'' 5 ''expense'' []) = None
   \<and> data_dir (fst (add_record empty_fs ''yesterday'' ''food'' 5 ''expense'' [])) ''yesterd'' =
     Some [\<lparr>csv_date = ''yesterday'', csv_category = ''food'', csv_amount = 5,
            csv_type = ''expense'', csv_note = []\<rparr>]"
  using add_record_usable[of empty_fs "''2025-09-01''" "''food''" "- 5" "''expense''" "[]"]
    add_record_usable[of empty_fs "''yesterday''" "''food''" "5" "''expense''" "[]"]
    usable_empty_fs
  by (simp add: read_month_def empty_fs_def to_csv_def write_field_def)

theorem add_record_preserves_month_table_inv_witness:
  "month_table_inv empty_fs \<and>
   month_table_inv (fst (add_record empty_fs ''2025-09-01'' ''food'' 25 ''expense'' [])) \<and>
   month_table_inv (fst (api_add_record empty_fs ''2025-09-01'' ''food'' 25 ''expense'' []))"
proof -
  have e: "month_table_inv empty_fs" by (simp add: month_table_inv_def empty_fs_def)
  show ?thesis using e add_record_preserves_month_table_inv[OF e] by simp
qed









section \<open>Properties of the aggregation\<close>

lemma sum_list_delta_absent:
  "k0 \<notin> set ks \<Longrightarrow> sum_list (map (\<lambda>k. if k0 = k then (a::rat) else 0) ks) = 0"
  by (induction ks) auto

lemma sum_list_delta:
  "distinct ks \<Longrightarrow> k0 \<in> set ks \<Longrightarrow>
   sum_list (map (\<lambda>k. if k0 = k then (a::rat) else 0) ks) = a"
  by (induction ks) (auto simp: sum_list_delta_absent)

lemma amount_sum_filter_Cons:
  "amount_sum (filter P (x # xs)) = (if P x then amount x else 0) + amount_sum (filter P xs)"
  by (simp add: amount_sum_def)

lemma group_sums_total:
  assumes "distinct ks" and "\<forall>r \<in> set df. \<exists>k \<in> set ks. category r = Str k"
  shows "sum_list (map (\<lambda>k. amount_sum (filter (\<lambda>r. category r = Str k) df)) ks) = amount_sum df"
  using assms(2)
proof (induction df)
  case Nil
  show ?case by (simp add: amount_sum_def)
next
  case (Cons x xs)
  then obtain k0 where k0: "k0 \<in> set ks" "category x = Str k0" by auto
  have "sum_list (map (\<lambda>k. amount_sum (filter (\<lambda>r. category r = Str k) (x # xs))) ks) =
        sum_list (map (\<lambda>k. (if k0 = k then amount x else 0) +
                            amount_sum (filter (\<lambda>r. category r = Str k) xs)) ks)"
    by (intro arg_cong[where f = sum_list] map_cong refl) (simp add: amount_sum_def k0(2))
  also have "\<dots> = sum_list (map (\<lambda>k. if k0 = k then amount x else 0) ks) +
                   sum_list (map (\<lambda>k. amount_sum (filter (\<lambda>r. category r = Str k) xs)) ks)"
    by (simp add: sum_list_addf)
  also have "\<dots> = amount x + amount_sum xs"
    using Cons sum_list_delta[OF assms(1) k0(1)] by simp
  finally show ?case by (simp add: amount_sum_def)
qed

lemma set_map_filter_category:
  "set (List.map_filter (\<lambda>r. case category r of Str k \<Rightarrow> Some k | NaN \<Rightarrow> None) df) =
     {k. \<exists>r \<in> set df. category r = Str k}"
  by (induction df) (auto split: cell.splits)

lemma set_category_keys: "set (category_keys df) = {k. \<exists>r \<in> set df. category r = Str k}"
  by (simp add: category_keys_def set_map_filter_category)

lemma distinct_category_keys: "distinct (category_keys df)"
  by (simp add: category_keys_def)

lemma sorted_category_keys: "sorted (category_keys df)"
  by (simp add: category_keys_def)

text \<open>
  In exact arithmetic the sums of the groups add up to the sum of the frame, when every row
  has a category.
\<close>

lemma groupby_sum_total:
  assumes "\<forall>r \<in> set df. category r \<noteq> NaN"
  shows "sum_list (map snd (groupby_category_sum df)) = amount_sum df"
proof -
  have "\<forall>r \<in> set df. \<exists>k \<in> set (category_keys df). category r = Str k"
  proof
    fix r assume r: "r \<in> set df"
    then obtain k where "category r = Str k" using assms by (cases "category r") auto
    then show "\<exists>k \<in> set (category_keys df). category r = Str k"
      using r by (auto simp: set_category_keys)
  qed
  from group_sums_total[OF distinct_category_keys this]
  show ?thesis by (simp add: groupby_category_sum_def comp_def)
qed

lemma mset_sort_values_desc: "sorts_by_value kind \<Longrightarrow> mset (sort_values_desc kind s) = mset s"
  by (simp add: sorts_by_value_def sort_values_desc_def)

lemma sum_sort_values_desc:
  assumes "sorts_by_value kind"
  shows "sum_list (map snd (sort_values_desc kind s)) = sum_list (map snd s)"
proof -
  have "mset (map snd (sort_values_desc kind s)) = mset (map snd s)"
    using mset_sort_values_desc[OF assms, of s] by (metis mset_map)
  then show ?thesis by (metis sum_mset_sum_list)
qed

lemma sorts_by_value_stable_kind: "sorts_by_value stable_kind"
  by (simp add: sorts_by_value_def stable_kind_def)

lemma sort_values_desc_Nil: "sorts_by_value kind \<Longrightarrow> sort_values_desc kind [] = []"
  using mset_sort_values_desc[of kind "[]"] by simp

lemma groupby_category_sum_Nil: "groupby_category_sum [] = []"
  by (simp add: groupby_category_sum_def category_keys_def)

lemma mset_filter_disjoint:
  "(\<And>x. x \<in> set xs \<Longrightarrow> \<not> (P x \<and> Q x)) \<Longrightarrow>
   mset (filter P xs) + mset (filter Q xs) = mset (filter (\<lambda>x. P x \<or> Q x) xs)"
  by (induction xs) auto

lemma mset_groups:
  "distinct ks \<Longrightarrow>
   mset (concat (map (category_group df) ks)) =
     mset (filter (\<lambda>r. \<exists>k \<in> set ks. category r = Str k) df)"
proof (induction ks)
  case Nil
  show ?case by simp
next
  case (Cons k ks)
  have ih: "mset (concat (map (category_group df) ks)) =
        mset (filter (\<lambda>r. \<exists>k \<in> set ks. category r = Str k) df)"
    using Cons by simp
  have "mset (concat (map (category_group df) (k # ks))) =
        mset (category_group df k) + mset (concat (map (category_group df) ks))"
    by simp
  also have "\<dots> = mset (filter (\<lambda>r. category r = Str k) df) +
        mset (filter (\<lambda>r. \<exists>k \<in> set ks. category r = Str k) df)"
    unfolding ih category_group_def ..
  also have "\<dots> = mset (filter (\<lambda>r. category r = Str k \<or> (\<exists>k \<in> set ks. category r = Str k)) df)"
    using Cons.prems by (intro mset_filter_disjoint) auto
  also have "\<dots> = mset (filter (\<lambda>r. \<exists>k' \<in> set (k # ks). category r = Str k') df)"
    by simp
  finally show ?case .
qed

text \<open>
  The groups of the categories of a frame are disjoint, and together they are the rows that
  have a category: a row whose category is missing is in no group.
\<close>

lemma category_groups_partition:
  "mset (concat (map (category_group df) (category_keys df))) =
     mset (filter (\<lambda>r. category r \<noteq> NaN) df)"
proof -
  have "filter (\<lambda>r. \<exists>k \<in> set (category_keys df). category r = Str k) df =
        filter (\<lambda>r. category r \<noteq> NaN) df"
  proof (rule filter_cong[OF refl])
    fix r assume "r \<in> set df"
    then show "(\<exists>k \<in> set (category_keys df). category r = Str k) = (category r \<noteq> NaN)"
      by (cases "category r") (auto simp: set_category_keys)
  qed
  then have "mset (filter (\<lambda>r. \<exists>k \<in> set (category_keys df). category r = Str k) df) =
        mset (filter (\<lambda>r. category r \<noteq> NaN) df)"
    by (simp only:)
  then show ?thesis using mset_groups[OF distinct_category_keys, where df = df] by (simp only:)
qed

lemma groupby_category_sum_values:
  "groupby_category_sum df = map (\<lambda>k. (k, amount_sum (category_group df k))) (category_keys df)"
  by (simp add: groupby_category_sum_def category_group_def)

lemma generate_report_Some:
  assumes "generate_report kind fs month = (fs', Inr (Some rep))"
  shows "\<exists>fs1. ensure_csv fs month = Inr fs1 \<and> fs' = fs1 \<and> read_month fs1 month \<noteq> []
     \<and> rep = \<lparr>pr_income = amount_sum (rows_of_type ''income'' (read_month fs1 month)),
              pr_expense = amount_sum (rows_of_type ''expense'' (read_month fs1 month)),
              pr_net = amount_sum (rows_of_type ''income'' (read_month fs1 month))
                       - amount_sum (rows_of_type ''expense'' (read_month fs1 month)),
              pr_summary = sort_values_desc kind
                 (groupby_category_sum (rows_of_type ''expense'' (read_month fs1 month)))\<rparr>"
  using assms
  by (cases "ensure_csv fs month") (auto simp: generate_report_def Let_def split: if_splits)

text \<open>
  Claim C7, as the code has it. For every table the totals are the sums of the amounts of
  the rows of their kind and the net is the income total minus the expense total, in
  \<^verbatim>\<open>calculate_monthly_summary\<close> and in \<^verbatim>\<open>generate_report\<close>. The category summary of a
  kind has one entry for each category that occurs among the rows of the kind, with the sum
  of the amounts of that category's group; the groups are disjoint, and together they are
  exactly the rows of the kind whose category is not read as missing. Sorting the summary
  permutes its entries. So the values of a summary and the total of its kind add up the
  same amounts when no category is missing, taken in a different order; a row whose
  category is missing counts in the total and in no group. (That the two sums are the same
  number is a statement of exact arithmetic, \<open>groupby_sum_total\<close>; for the floats of the
  code it holds up to rounding only.)
\<close>

theorem period_report_totals:
  "(case calculate_monthly_summary df of (income, expense, net) \<Rightarrow>
      income = amount_sum (rows_of_type ''income'' df)
      \<and> expense = amount_sum (rows_of_type ''expense'' df) \<and> net = income - expense)
    \<and> (generate_report kind fs month = (fs', Inr (Some rep)) \<longrightarrow>
          pr_net rep = pr_income rep - pr_expense rep)
    \<and> (generate_report kind fs month = (fs', Inr (Some rep)) \<and> sorts_by_value kind \<longrightarrow>
          pr_expense rep = amount_sum (rows_of_type ''expense'' (read_month fs' month))
          \<and> mset (pr_summary rep) =
              mset (groupby_category_sum (rows_of_type ''expense'' (read_month fs' month))))
    \<and> groupby_category_sum (rows_of_type k df) =
         map (\<lambda>c. (c, amount_sum (category_group (rows_of_type k df) c)))
           (category_keys (rows_of_type k df))
    \<and> distinct (category_keys (rows_of_type k df))
    \<and> mset (concat (map (category_group (rows_of_type k df)) (category_keys (rows_of_type k df)))) =
         mset (filter (\<lambda>r. category r \<noteq> NaN) (rows_of_type k df))"
proof -
  have a: "(case calculate_monthly_summary df of (income, expense, net) \<Rightarrow>
      income = amount_sum (rows_of_type ''income'' df)
      \<and> expense = amount_sum (rows_of_type ''expense'' df) \<and> net = income - expense)"
    by (simp add: calculate_monthly_summary_def Let_def)
  have b: "generate_report kind fs month = (fs', Inr (Some rep)) \<longrightarrow>
          pr_net rep = pr_income rep - pr_expense rep"
    using generate_report_Some[of kind fs month fs' rep] by auto
  have c: "generate_report kind fs month = (fs', Inr (Some rep)) \<and> sorts_by_value kind \<longrightarrow>
          pr_expense rep = amount_sum (rows_of_type ''expense'' (read_month fs' month))
          \<and> mset (pr_summary rep) =
              mset (groupby_category_sum (rows_of_type ''expense'' (read_month fs' month)))"
    using generate_report_Some[of kind fs month fs' rep] mset_sort_values_desc[of kind]
    by auto
  show ?thesis
    using a b c groupby_category_sum_values[of "rows_of_type k df"]
      distinct_category_keys[of "rows_of_type k df"]
      category_groups_partition[of "rows_of_type k df"]
    by blast
qed

lemma read_month_empty_ensure:
  assumes "read_month fs month = []" and "data_dir fs month \<noteq> None \<or> usable fs month"
  shows "\<exists>fs1. ensure_csv fs month = Inr fs1 \<and> read_month fs1 month = []"
proof -
  obtain fs1 where e: "ensure_csv fs month = Inr fs1"
    using assms(2) by (cases "data_dir fs month") (auto simp: ensure_csv_def)
  then show ?thesis using ensure_csv_Inr(5)[OF e] assms(1) by simp
qed

text \<open>
  Claim C8. Summarising an empty table gives the totals \<open>(0, 0, 0)\<close>; a table without rows
  of some kind gives the total 0 and an empty category summary for that kind; the report of
  \<^verbatim>\<open>api.py\<close> for a month without records, whose table exists or can be created, is
  returned with zero totals and an empty summary, and for a month without expenses with the
  expense total 0 and an empty summary. All of these are values: the summaries have no
  failing branch.
\<close>

theorem empty_input_summaries:
  assumes "sorts_by_value kind"
  shows "calculate_monthly_summary [] = (0, 0, 0)
    \<and> (rows_of_type k df = [] \<longrightarrow>
          amount_sum (rows_of_type k df) = 0
          \<and> groupby_category_sum (rows_of_type k df) = []
          \<and> sort_values_desc kind (groupby_category_sum (rows_of_type k df)) = [])
    \<and> (rows_of_type ''income'' df = [] \<longrightarrow> fst (calculate_monthly_summary df) = 0)
    \<and> (rows_of_type ''expense'' df = [] \<longrightarrow> fst (snd (calculate_monthly_summary df)) = 0)
    \<and> (read_month fs month = [] \<and> (data_dir fs month \<noteq> None \<or> usable fs month) \<longrightarrow>
          snd (api_generate_report fs month) =
            Inr \<lparr>pr_income = 0, pr_expense = 0, pr_net = 0, pr_summary = []\<rparr>)
    \<and> (rows_of_type ''expense'' (read_month fs month) = []
        \<and> (data_dir fs month \<noteq> None \<or> usable fs month) \<longrightarrow>
          (\<exists>rep. snd (api_generate_report fs month) = Inr rep
             \<and> pr_expense rep = 0 \<and> pr_summary rep = []))"
proof -
  have e: "read_month fs month = [] \<and> (data_dir fs month \<noteq> None \<or> usable fs month) \<longrightarrow>
          snd (api_generate_report fs month) =
            Inr \<lparr>pr_income = 0, pr_expense = 0, pr_net = 0, pr_summary = []\<rparr>"
  proof
    assume h: "read_month fs month = [] \<and> (data_dir fs month \<noteq> None \<or> usable fs month)"
    then obtain fs1 where "ensure_csv fs month = Inr fs1" "read_month fs1 month = []"
      using read_month_empty_ensure[of fs month] by auto
    then show "snd (api_generate_report fs month) =
            Inr \<lparr>pr_income = 0, pr_expense = 0, pr_net = 0, pr_summary = []\<rparr>"
      by (simp add: api_generate_report_def)
  qed
  have f: "rows_of_type ''expense'' (read_month fs month) = []
        \<and> (data_dir fs month \<noteq> None \<or> usable fs month) \<longrightarrow>
          (\<exists>rep. snd (api_generate_report fs month) = Inr rep
             \<and> pr_expense rep = 0 \<and> pr_summary rep = [])"
  proof
    assume h: "rows_of_type ''expense'' (read_month fs month) = []
        \<and> (data_dir fs month \<noteq> None \<or> usable fs month)"
    then obtain fs1 where e1: "ensure_csv fs month = Inr fs1"
      by (cases "data_dir fs month") (auto simp: ensure_csv_def)
    have r: "rows_of_type ''expense'' (read_month fs1 month) = []"
      using h ensure_csv_Inr(5)[OF e1] by simp
    show "\<exists>rep. snd (api_generate_report fs month) = Inr rep
             \<and> pr_expense rep = 0 \<and> pr_summary rep = []"
      by (simp add: api_generate_report_def e1 r Let_def amount_sum_def groupby_category_sum_Nil)
  qed
  have rest: "calculate_monthly_summary [] = (0, 0, 0)
    \<and> (rows_of_type k df = [] \<longrightarrow>
          amount_sum (rows_of_type k df) = 0
          \<and> groupby_category_sum (rows_of_type k df) = []
          \<and> sort_values_desc kind (groupby_category_sum (rows_of_type k df)) = [])
    \<and> (rows_of_type ''income'' df = [] \<longrightarrow> fst (calculate_monthly_summary df) = 0)
    \<and> (rows_of_type ''expense'' df = [] \<longrightarrow> fst (snd (calculate_monthly_summary df)) = 0)"
    using sort_values_desc_Nil[OF assms]
    by (auto simp: calculate_monthly_summary_def Let_def amount_sum_def rows_of_type_def
          groupby_category_sum_Nil)
  show ?thesis using rest e f by blast
qed

lemmas store_eval_defs = add_record_def ensure_csv_def read_month_def to_csv_def read_csv_def
  read_field_def write_field_def na_values_def empty_fs_def plain_name_def Let_def

lemma scenario_rows:
  "read_month scenario_fs ''2025-09'' =
     [\<lparr>date = Str ''2025-09-01'', category = Str ''food'', amount = 25, type = Str ''expense'', note = NaN\<rparr>,
      \<lparr>date = Str ''2025-09-05'', category = Str ''salary'', amount = 5000, type = Str ''income'', note = NaN\<rparr>]"
  by (simp add: scenario_fs_def store_eval_defs)

lemma scenario_ensure: "ensure_csv scenario_fs ''2025-09'' = Inr scenario_fs"
  by (simp add: scenario_fs_def store_eval_defs)

lemma scenario_expense_summary:
  "groupby_category_sum (rows_of_type ''expense'' (read_month scenario_fs ''2025-09'')) = [(''food'', 25)]"
  by (simp add: scenario_rows rows_of_type_def groupby_category_sum_def category_keys_def
        amount_sum_def)

lemma stable_kind_single: "sort_values_desc stable_kind [x] = [x]"
  by (simp add: sort_values_desc_def stable_kind_def)

lemma scenario_report:
  "generate_report stable_kind scenario_fs ''2025-09'' =
     (scenario_fs, Inr (Some \<lparr>pr_income = 5000, pr_expense = 25, pr_net = 4975,
                              pr_summary = [(''food'', 25)]\<rparr>))"
  by (simp add: generate_report_def scenario_ensure scenario_expense_summary stable_kind_single Let_def)
     (simp add: scenario_rows rows_of_type_def amount_sum_def)

theorem period_report_totals_witness:
  "sorts_by_value stable_kind
   \<and> generate_report stable_kind scenario_fs ''2025-09'' =
       (scenario_fs, Inr (Some \<lparr>pr_income = 5000, pr_expense = 25, pr_net = 4975,
                                pr_summary = [(''food'', 25)]\<rparr>))
   \<and> (4975::rat) = 5000 - 25
   \<and> amount_sum (rows_of_type ''expense'' (read_month scenario_fs ''2025-09'')) = 25
   \<and> groupby_category_sum (rows_of_type ''expense'' (read_month scenario_fs ''2025-09'')) =
       [(''food'', 25)]"
  using period_report_totals[of "read_month scenario_fs ''2025-09''" stable_kind scenario_fs
           "''2025-09''" scenario_fs
           "\<lparr>pr_income = 5000, pr_expense = 25, pr_net = 4975, pr_summary = [(''food'', 25)]\<rparr>"
           "''expense''"]
    sorts_by_value_stable_kind scenario_report scenario_expense_summary
  by simp

text \<open>
  An expense of 10 with the category \<^verbatim>\<open>NA\<close>: the category is read back as missing, the
  grouping drops the row, and the summary is empty while the expense total is 10.
\<close>

theorem category_read_as_missing_counterexample:
  "snd (generate_report stable_kind
         (fst (add_record empty_fs ''2025-09-01'' ''NA'' 10 ''expense'' [])) ''2025-09'') =
     Inr (Some \<lparr>pr_income = 0, pr_expense = 10, pr_net = - 10, pr_summary = []\<rparr>)"
  by (simp add: generate_report_def store_eval_defs rows_of_type_def amount_sum_def
        groupby_category_sum_def category_keys_def sort_values_desc_def stable_kind_def)

theorem empty_input_summaries_witness:
  "sorts_by_value stable_kind
   \<and> rows_of_type ''expense'' [\<lparr>date = Str ''2025-09-05'', category = Str ''salary'', amount = 5000,
         type = Str ''income'', note = NaN\<rparr>] = []
   \<and> calculate_monthly_summary [\<lparr>date = Str ''2025-09-05'', category = Str ''salary'', amount = 5000,
         type = Str ''income'', note = NaN\<rparr>] = (5000, 0, 5000)
   \<and> read_month empty_fs ''2025-09'' = [] \<and> usable empty_fs ''2025-09''
   \<and> snd (api_generate_report empty_fs ''2025-09'') =
        Inr \<lparr>pr_income = 0, pr_expense = 0, pr_net = 0, pr_summary = []\<rparr>"
proof -
  let ?df = "[\<lparr>date = Str ''2025-09-05'', category = Str ''salary'', amount = 5000,
         type = Str ''income'', note = NaN\<rparr>]"
  have e: "rows_of_type ''expense'' ?df = []" by (simp add: rows_of_type_def)
  have m: "read_month empty_fs ''2025-09'' = []"
    by (simp add: store_eval_defs)
  have c: "calculate_monthly_summary ?df = (5000, 0, 5000)"
    by (simp add: calculate_monthly_summary_def rows_of_type_def amount_sum_def)
  show ?thesis
    using empty_input_summaries[OF sorts_by_value_stable_kind, of "''expense''" ?df empty_fs "''2025-09''"]
      sorts_by_value_stable_kind e m c usable_empty_fs(1)
    by simp
qed

section \<open>Properties of the reports\<close>

lemma read_month_no_transactions:
  "data_dir fs month = None \<or> data_dir fs month = Some [] \<Longrightarrow> read_month fs month = []"
  by (auto simp: read_month_def read_csv_def)

text \<open>
  Claim C4, as the code has it. For a month with zero transactions (no table yet, or a table
  with the header only), \<^verbatim>\<open>export_md\<close> of \<^verbatim>\<open>ledger.py\<close> prints a warning and returns:
  it writes no report, leaves the reports and the chart files as they were, and only makes
  sure that the month's table exists. \<^verbatim>\<open>export_md\<close> of \<^verbatim>\<open>api.py\<close> writes a report with
  an empty listing whose three totals are zero, and no chart. Both raise \<open>OSError\<close>, and
  write nothing, only when the month has no table and none can be created.
\<close>

theorem empty_month_report:
  assumes "data_dir fs month = None \<or> data_dir fs month = Some []"
  shows "export_md kind fs month =
           (case ensure_csv fs month of Inr fs1 \<Rightarrow> (fs1, None) | Inl e \<Rightarrow> (fs, Some e))
    \<and> report_dir (fst (export_md kind fs month)) = report_dir fs
    \<and> png_files (fst (export_md kind fs month)) = png_files fs
    \<and> png_files (fst (api_export_md fs month)) = png_files fs
    \<and> (data_dir fs month \<noteq> None \<or> usable fs month \<longrightarrow>
          snd (export_md kind fs month) = None
          \<and> snd (api_export_md fs month) = None
          \<and> report_dir (fst (api_export_md fs month)) month =
              Some (ApiReport \<lparr>ar_month = month, ar_listing = [], ar_income_total = 0,
                                 ar_expense_total = 0, ar_net_total = 0\<rparr>))
    \<and> (data_dir fs month = None \<and> \<not> usable fs month \<longrightarrow>
          export_md kind fs month = (fs, Some OSError)
          \<and> api_export_md fs month = (fs, Some OSError))"
proof (cases "ensure_csv fs month")
  case (Inl e)
  then have e: "e = OSError" "data_dir fs month = None" "\<not> usable fs month"
    using ensure_csv_Inl[of fs month e] by simp_all
  show ?thesis using Inl e by (simp add: export_md_def api_export_md_def)
next
  case (Inr fs1)
  have r: "read_month fs1 month = []"
    using ensure_csv_Inr(5)[OF Inr] read_month_no_transactions[OF assms] by simp
  have u: "data_dir fs month \<noteq> None \<or> usable fs month"
    using Inr by (auto simp: ensure_csv_def split: if_splits)
  show ?thesis
    using Inr r u ensure_csv_Inr(2,3)[OF Inr]
    by (auto simp: export_md_def api_export_md_def Let_def rows_of_type_def amount_sum_def)
qed

lemma usable_empty_reports_fs: "usable empty_reports_fs ''2025-09''"
  by (simp add: empty_reports_fs_def plain_name_def)

theorem empty_month_report_witness:
  "data_dir empty_reports_fs ''2025-09'' = None \<and> usable empty_reports_fs ''2025-09''
   \<and> snd (export_md stable_kind empty_reports_fs ''2025-09'') = None
   \<and> report_dir (fst (export_md stable_kind empty_reports_fs ''2025-09'')) = Map.empty
   \<and> png_files (fst (export_md stable_kind empty_reports_fs ''2025-09'')) = {}
   \<and> snd (api_export_md empty_reports_fs ''2025-09'') = None
   \<and> report_dir (fst (api_export_md empty_reports_fs ''2025-09'')) ''2025-09'' =
          Some (ApiReport \<lparr>ar_month = ''2025-09'', ar_listing = [], ar_income_total = 0,
                             ar_expense_total = 0, ar_net_total = 0\<rparr>)
   \<and> png_files (fst (api_export_md empty_reports_fs ''2025-09'')) = {}"
proof -
  have h: "data_dir empty_reports_fs ''2025-09'' = None" by (simp add: empty_reports_fs_def)
  have r: "report_dir empty_reports_fs = Map.empty" "png_files empty_reports_fs = {}"
    by (simp_all add: empty_reports_fs_def)
  show ?thesis
    using empty_month_report[of empty_reports_fs "''2025-09''" stable_kind, THEN conjunct2] h r
      usable_empty_reports_fs
    by simp
qed

text \<open>
  Asked for the report of a month with zero transactions in an empty ledger,
  \<^verbatim>\<open>ledger.export_md\<close> leaves no report of that month.
\<close>

theorem export_md_empty_month_counterexample:
  "report_dir (fst (export_md stable_kind empty_reports_fs ''2025-09'')) ''2025-09'' = None"
  by (simp add: export_md_def Let_def ensure_csv_def read_month_def read_csv_def
        empty_reports_fs_def plain_name_def)

lemma sorted_desc_sort_values_desc:
  "sorts_by_value kind \<Longrightarrow> sorted_desc (sort_values_desc kind s)"
  by (simp add: sorted_desc_def sort_values_desc_def sorts_by_value_def rev_map)

lemma sorted_desc_Nil: "sorted_desc []"
  by (simp add: sorted_desc_def)

lemma generate_report_sorted:
  assumes "sorts_by_value kind" and "generate_report kind fs month = (fs', Inr (Some rep))"
  shows "sorted_desc (pr_summary rep)"
  using generate_report_Some[OF assms(2)] sorted_desc_sort_values_desc[OF assms(1)] by auto

lemma multi_month_step_printed_sorted:
  assumes "sorts_by_value kind" and "printed_sorted acc"
    and "multi_month_step kind fs month acc = Inr acc'"
  shows "printed_sorted acc'"
proof (cases "get_monthly_data fs month = []")
  case True
  then show ?thesis using assms(2,3) by (simp add: multi_month_step_def)
next
  case False
  then obtain tdf where t: "with_datetime (get_monthly_data fs month) = Inr tdf"
    using assms(3) by (cases "with_datetime (get_monthly_data fs month)")
      (auto simp: multi_month_step_def)
  have "printed_summaries acc' = printed_summaries acc @
      [(month, sort_values_desc kind (groupby_category_sum (rows_of_type ''expense'' (sort_by_date tdf))),
        sort_values_desc kind (groupby_category_sum (rows_of_type ''income'' (sort_by_date tdf))))]"
    using assms(3) False t
    by (auto simp: multi_month_step_def Let_def split: prod.splits)
  then show ?thesis
    using assms(2) sorted_desc_sort_values_desc[OF assms(1)] by (simp add: printed_sorted_def)
qed

lemma multi_month_loop_printed_sorted:
  assumes "sorts_by_value kind"
  shows "printed_sorted acc \<Longrightarrow> multi_month_loop kind fs months acc = Inr acc' \<Longrightarrow>
         printed_sorted acc'"
proof (induction months arbitrary: acc)
  case Nil
  then show ?case by simp
next
  case (Cons m ms)
  then obtain acc1 where s: "multi_month_step kind fs m acc = Inr acc1"
    and l: "multi_month_loop kind fs ms acc1 = Inr acc'"
    by (cases "multi_month_step kind fs m acc") auto
  show ?case
    using Cons.IH[OF multi_month_step_printed_sorted[OF assms Cons.prems(1) s] l] .
qed

lemma generate_multi_month_report_sorted:
  assumes "sorts_by_value kind" and "generate_multi_month_report kind fs months = Inr acc"
  shows "sorted_desc (all_income_categories acc) \<and> sorted_desc (all_expense_categories acc)
         \<and> printed_sorted acc"
proof -
  obtain acc0 where l: "multi_month_loop kind fs (sort months) multi_acc_init = Inr acc0"
    and a: "acc = acc0\<lparr>all_income_categories := sort_values_desc kind (all_income_categories acc0),
                   all_expense_categories := sort_values_desc kind (all_expense_categories acc0)\<rparr>"
    using assms(2)
    by (cases "multi_month_loop kind fs (sort months) multi_acc_init")
       (auto simp: generate_multi_month_report_def)
  have "printed_sorted multi_acc_init" by (simp add: printed_sorted_def multi_acc_init_def)
  from multi_month_loop_printed_sorted[OF assms(1) this l]
  have "printed_sorted acc" by (simp add: a printed_sorted_def)
  then show ?thesis using sorted_desc_sort_values_desc[OF assms(1)] by (simp add: a)
qed

lemma weekly_section_of_sorted:
  "sorts_by_value kind \<Longrightarrow> weekly_section_of kind month tdf w = Some sec \<Longrightarrow>
   sorted_desc (ws_summary sec)"
  by (cases w) (auto simp: weekly_section_of_def Let_def sorted_desc_sort_values_desc split: if_splits)

text \<open>
  The report that \<^verbatim>\<open>export_md\<close> has written when it returns normally for a month with
  records.
\<close>

lemma export_md_written:
  assumes "ensure_csv fs month = Inr fs1" and "read_month fs1 month \<noteq> []"
    and "export_md kind fs month = (fs', None)"
  shows "\<exists>tdf r. with_datetime (read_month fs1 month) = Inr tdf
     \<and> report_dir fs' month = Some (MonthReport r)
     \<and> mr_weekly r = List.map_filter (weekly_section_of kind month tdf) (weekly_windows tdf)
     \<and> mr_summary r = groupby_category_sum (rows_of_type ''expense'' (read_month fs1 month))"
proof -
  obtain tdf where t: "with_datetime (read_month fs1 month) = Inr tdf"
    using assms by (cases "with_datetime (read_month fs1 month)")
      (auto simp: export_md_def Let_def)
  show ?thesis
    using assms t by (auto simp: export_md_def Let_def split: if_splits)
qed

lemma sorted_groupby_keys: "sorted (map fst (groupby_category_sum df))"
  by (simp add: groupby_category_sum_def comp_def sorted_category_keys)

lemmas reports_eval_defs = add_record_def ensure_csv_def read_month_def to_csv_def read_csv_def
  read_field_def write_field_def na_values_def empty_reports_fs_def plain_name_def Let_def

lemma sept_rows:
  "read_month sept_fs ''2025-09'' =
     [\<lparr>date = Str ''2025-09-05'', category = Str ''food'', amount = 40, type = Str ''expense'', note = NaN\<rparr>,
      \<lparr>date = Str ''2025-09-09'', category = Str ''bus'', amount = 25, type = Str ''expense'', note = NaN\<rparr>,
      \<lparr>date = Str ''2025-09-09'', category = Str ''salary'', amount = 5000, type = Str ''income'', note = NaN\<rparr>]"
  by (simp add: sept_fs_def reports_eval_defs)

lemma sept_ensure: "ensure_csv sept_fs ''2025-09'' = Inr sept_fs"
  by (simp add: sept_fs_def reports_eval_defs)

lemma sept_expense_summary:
  "groupby_category_sum (rows_of_type ''expense'' (read_month sept_fs ''2025-09'')) =
     [(''bus'', 25), (''food'', 40)]"
  by (simp add: sept_rows rows_of_type_def groupby_category_sum_def category_keys_def
        amount_sum_def)

lemma sept_dated:
  "with_datetime (read_month sept_fs ''2025-09'') =
     Inr (zip [Some (2025, 9, 5), Some (2025, 9, 9), Some (2025, 9, 9)] (read_month sept_fs ''2025-09''))"
  by (simp add: sept_rows with_datetime_def to_datetime_def is_digit_def digits_val_def
        digit_val_def days_in_month_def)

lemma sept_report_summary:
  "generate_report stable_kind sept_fs ''2025-09'' =
     (sept_fs, Inr (Some \<lparr>pr_income = 5000, pr_expense = 65, pr_net = 4935,
                          pr_summary = [(''food'', 40), (''bus'', 25)]\<rparr>))"
proof -
  have s: "sort_values_desc stable_kind [(''bus'', 25::rat), (''food'', 40)] = [(''food'', 40), (''bus'', 25)]"
    by (simp add: sort_values_desc_def stable_kind_def)
  show ?thesis
    by (simp add: generate_report_def sept_ensure sept_expense_summary s Let_def)
       (simp add: sept_rows rows_of_type_def amount_sum_def)
qed

text \<open>
  What holds of the summaries that the code sorts. With any sorting routine that the library
  may use, \<^verbatim>\<open>sort_values(ascending=False)\<close> returns the entries of the series in descending
  order of amount. So the category summary printed by \<^verbatim>\<open>generate_report\<close>, the summaries
  of each month and the merged summaries of \<^verbatim>\<open>generate_multi_month_report\<close>, and the
  summaries of the weekly sections of \<^verbatim>\<open>export_md\<close> are in descending order of amount;
  the expense summary of the month in the report of \<^verbatim>\<open>export_md\<close> is in the order of the
  category names.
\<close>

lemma sorted_summaries_descending:
  assumes "sorts_by_value kind"
  shows "sorted_desc (sort_values_desc kind s) \<and> mset (sort_values_desc kind s) = mset s
    \<and> (generate_report kind fs month = (fs', Inr (Some rep)) \<longrightarrow> sorted_desc (pr_summary rep))
    \<and> (generate_multi_month_report kind fs months = Inr acc \<longrightarrow>
          sorted_desc (all_income_categories acc) \<and> sorted_desc (all_expense_categories acc)
          \<and> printed_sorted acc)
    \<and> (ensure_csv rfs month = Inr rfs1 \<and> read_month rfs1 month \<noteq> []
        \<and> export_md kind rfs month = (rfs', None)
        \<and> report_dir rfs' month = Some (MonthReport r) \<longrightarrow>
          list_all (\<lambda>w. sorted_desc (ws_summary w)) (mr_weekly r)
          \<and> sorted (map fst (mr_summary r)))"
proof -
  have w: "ensure_csv rfs month = Inr rfs1 \<and> read_month rfs1 month \<noteq> []
        \<and> export_md kind rfs month = (rfs', None)
        \<and> report_dir rfs' month = Some (MonthReport r) \<longrightarrow>
          list_all (\<lambda>w. sorted_desc (ws_summary w)) (mr_weekly r)
          \<and> sorted (map fst (mr_summary r))"
  proof
    assume h: "ensure_csv rfs month = Inr rfs1 \<and> read_month rfs1 month \<noteq> []
        \<and> export_md kind rfs month = (rfs', None)
        \<and> report_dir rfs' month = Some (MonthReport r)"
    then obtain tdf where
      wk: "mr_weekly r = List.map_filter (weekly_section_of kind month tdf) (weekly_windows tdf)"
      and su: "mr_summary r = groupby_category_sum
                 (rows_of_type ''expense'' (read_month rfs1 month))"
      using export_md_written[of rfs month rfs1 kind rfs'] by auto
    have "list_all (\<lambda>w. sorted_desc (ws_summary w)) (mr_weekly r)"
      unfolding wk list_all_iff
      using weekly_section_of_sorted[OF assms]
      by (auto simp: List.map_filter_def)
    then show "list_all (\<lambda>w. sorted_desc (ws_summary w)) (mr_weekly r)
          \<and> sorted (map fst (mr_summary r))"
      by (simp add: su sorted_groupby_keys)
  qed
  show ?thesis
    using sorted_desc_sort_values_desc[OF assms] mset_sort_values_desc[OF assms]
      generate_report_sorted[OF assms] generate_multi_month_report_sorted[OF assms] w
    by blast
qed

text \<open>
  The order among categories of equal amount is that of the sorting routine. The code
  requests none; with a stable routine the entries of one amount keep the order in which
  the grouped series has them, which is the order of the category names.
\<close>

lemma sort_values_desc_stable_ties:
  "filter (\<lambda>p. snd p = v) (sort_values_desc stable_kind s) = filter (\<lambda>p. snd p = v) s"
proof -
  have "filter (\<lambda>p. snd p = v) (rev (sort_key snd (rev s))) =
        rev (filter (\<lambda>p. snd p = v) (sort_key snd (rev s)))"
    by (simp add: rev_filter)
  also have "\<dots> = rev (filter (\<lambda>p. snd p = v) (rev s))"
    by (simp add: sort_key_stable)
  also have "\<dots> = filter (\<lambda>p. snd p = v) s" by (simp add: rev_filter)
  finally show ?thesis by (simp add: sort_values_desc_def stable_kind_def)
qed

text \<open>
  Claim C6, at the input where the code departs from it. The September ledger has the
  expenses food 40 and bus 25. \<^verbatim>\<open>generate_report\<close> prints the summary in descending order
  of amount, food 40 before bus 25, as the claim says and as every other summary of the
  program is sorted; but the expense summary in the report that \<^verbatim>\<open>export_md\<close> writes for
  the same month lists bus 25 before food 40: line 167 of \<^verbatim>\<open>ledger.py\<close> groups and sums
  without \<^verbatim>\<open>sort_values\<close>, so the table is in the order of the category names.
\<close>

theorem export_md_summary_not_descending:
  "(case report_dir (fst (export_md stable_kind sept_fs ''2025-09'')) ''2025-09'' of
      Some (MonthReport r) \<Rightarrow> mr_summary r | _ \<Rightarrow> []) = [(''bus'', 25), (''food'', 40)]
   \<and> \<not> sorted_desc [(''bus'', 25), (''food'', 40)]
   \<and> snd (generate_report stable_kind sept_fs ''2025-09'') =
       Inr (Some \<lparr>pr_income = 5000, pr_expense = 65, pr_net = 4935,
                   pr_summary = [(''food'', 40), (''bus'', 25)]\<rparr>)
   \<and> sorted_desc [(''food'', 40), (''bus'', 25)]"
proof -
  have n: "\<not> list_ex (\<lambda>(t, r). t = None)
     (zip [Some (2025, 9, 5), Some (2025, 9, 9), Some (2025::nat, 9::nat, 9::nat)]
        (read_month sept_fs ''2025-09''))"
    by (simp add: sept_rows)
  have ne: "read_month sept_fs ''2025-09'' \<noteq> []" by (simp add: sept_rows)
  have "(case report_dir (fst (export_md stable_kind sept_fs ''2025-09'')) ''2025-09'' of
      Some (MonthReport r) \<Rightarrow> mr_summary r | _ \<Rightarrow> []) =
      groupby_category_sum (rows_of_type ''expense'' (read_month sept_fs ''2025-09''))"
    using n ne by (simp add: export_md_def sept_ensure sept_dated Let_def)
  then show ?thesis by (simp add: sept_expense_summary sorted_desc_def sept_report_summary)
qed

section \<open>Properties of the aggregation over several months\<close>





















































section \<open>Properties of the weekly windows\<close>

lemma days_in_month_le_31: "days_in_month y m \<le> 31"
  by (simp add: days_in_month_def)

lemma days_in_month_ge_28: "28 \<le> days_in_month y m"
  by (simp add: days_in_month_def)

lemma add_days_within_month:
  "d + k \<le> days_in_month y m \<Longrightarrow> add_days k (y, m, d) = (y, m, d + k)"
  unfolding add_days_def by (induction k) auto

lemma ym_of_next_day: "ym_of t \<le> ym_of (next_day t)"
  by (cases t) (auto simp: ym_of_def less_eq_prod_def)

lemma ym_of_add_days: "ym_of t \<le> ym_of (add_days k t)"
  unfolding add_days_def
proof (induction k)
  case 0
  show ?case by simp
next
  case (Suc k)
  have "ym_of ((next_day ^^ k) t) \<le> ym_of (next_day ((next_day ^^ k) t))" by (rule ym_of_next_day)
  then show ?case using Suc by simp
qed

lemma next_day_last_of_month:
  "days_in_month y m \<le> d \<Longrightarrow> (y, m) < ym_of (next_day (y, m, d))"
  by (auto simp: ym_of_def less_prod_def)

lemma add_days_past_month:
  assumes "d \<le> days_in_month y m" and "days_in_month y m < d + k"
  shows "(y, m) < ym_of (add_days k (y, m, d))"
proof -
  define a where "a = days_in_month y m - d"
  define j where "j = k - a - 1"
  have k: "k = j + (1 + a)" using assms by (simp add: a_def j_def)
  have "add_days a (y, m, d) = (y, m, days_in_month y m)"
    using add_days_within_month[of d a y m] assms(1) by (simp add: a_def)
  then have "add_days (1 + a) (y, m, d) = next_day (y, m, days_in_month y m)"
    by (simp add: add_days_def)
  then have "(y, m) < ym_of (add_days (1 + a) (y, m, d))"
    using next_day_last_of_month[of y m "days_in_month y m"] by simp
  moreover have "add_days k (y, m, d) = add_days j (add_days (1 + a) (y, m, d))"
    unfolding k add_days_def by (simp only: funpow_add o_apply)
  ultimately show ?thesis
    using ym_of_add_days[of "add_days (1 + a) (y, m, d)" j] by simp
qed

lemma later_month_greater: "(y, m) < ym_of t \<Longrightarrow> (y, m, d) < t"
  by (cases t) (auto simp: ym_of_def less_prod_def less_eq_prod_def)

lemma same_month_le: "((y::nat, m::nat, a) \<le> (y, m, b)) = (a \<le> (b::nat))"
  by (auto simp: less_eq_prod_def)

lemma same_month_less: "((y::nat, m::nat, a) < (y, m, b)) = (a < (b::nat))"
  by (auto simp: less_prod_def less_eq_prod_def)

lemma weekly_loop_done:
  "D < s \<Longrightarrow> weekly_loop (y, m, s) (y, m, D) n = []"
  by (subst weekly_loop.simps) (simp add: same_month_le)

lemma weekly_loop_past_month:
  "(y, m) < ym_of t \<Longrightarrow> weekly_loop t (y, m, D) n = []"
proof -
  assume "(y, m) < ym_of t"
  then have "(y, m, D) < t" by (rule later_month_greater)
  then have "\<not> t \<le> (y, m, D)" by (simp add: not_le)
  then show ?thesis by (subst weekly_loop.simps) simp
qed

lemma week_end_in_month:
  assumes "s \<le> D" and "D \<le> days_in_month y m"
  shows "(if (y, m, D) < add_days 6 (y, m, s) then (y, m, D) else add_days 6 (y, m, s)) =
         (y, m, min (s + 6) D)"
proof (cases "s + 6 \<le> days_in_month y m")
  case True
  then show ?thesis using assms by (auto simp: add_days_within_month same_month_less min_def)
next
  case False
  then have "(y, m) < ym_of (add_days 6 (y, m, s))"
    using add_days_past_month[of s y m 6] assms by simp
  then have "(y, m, D) < add_days 6 (y, m, s)" by (rule later_month_greater)
  then show ?thesis using False assms by (simp add: min_def)
qed

lemma weekly_loop_step:
  assumes "s \<le> D" and "D \<le> days_in_month y m"
  shows "weekly_loop (y, m, s) (y, m, D) n =
     (n, (y, m, s), (y, m, min (s + 6) D)) #
     (if s + 6 < D then weekly_loop (y, m, s + 7) (y, m, D) (n + 1) else [])"
proof -
  have u: "weekly_loop (y, m, s) (y, m, D) n =
     (n, (y, m, s), (y, m, min (s + 6) D)) #
       weekly_loop (next_day (y, m, min (s + 6) D)) (y, m, D) (n + 1)"
    using assms(1) week_end_in_month[OF assms]
    by (subst weekly_loop.simps) (simp add: same_month_le Let_def)
  show ?thesis
  proof (cases "s + 6 < D")
    case True
    then have "next_day (y, m, min (s + 6) D) = (y, m, s + 7)" using assms(2) by (simp add: min_def)
    then show ?thesis using u True by simp
  next
    case False
    then have e: "min (s + 6) D = D" by simp
    have "weekly_loop (next_day (y, m, D)) (y, m, D) (n + 1) = []"
    proof (cases "D < days_in_month y m")
      case True
      then show ?thesis by (simp add: weekly_loop_done)
    next
      case f: False
      then have "(y, m) < ym_of (next_day (y, m, D))" by (intro next_day_last_of_month) simp
      then show ?thesis by (rule weekly_loop_past_month)
    qed
    then show ?thesis using u False e by simp
  qed
qed

lemma weekly_loop_from:
  assumes "D \<le> days_in_month y m"
  shows "weekly_loop (y, m, 7 * j + 1) (y, m, D) (j + 1) =
     map (\<lambda>k. (k + 1, (y, m, 7 * k + 1), (y, m, min (7 * k + 7) D))) [j..<(D + 6) div 7]"
proof (induction "(D + 6) div 7 - j" arbitrary: j)
  case 0
  then have "D < 7 * j + 1" by simp
  then show ?case using 0 by (simp add: weekly_loop_done)
next
  case (Suc x)
  then have lt: "j < (D + 6) div 7" by simp
  then have le: "7 * j + 1 \<le> D" by simp
  have r: "(if 7 * j + 1 + 6 < D then weekly_loop (y, m, 7 * j + 1 + 7) (y, m, D) (j + 1 + 1) else []) =
        map (\<lambda>k. (k + 1, (y, m, 7 * k + 1), (y, m, min (7 * k + 7) D))) [Suc j..<(D + 6) div 7]"
  proof (cases "7 * j + 1 + 6 < D")
    case True
    have "x = (D + 6) div 7 - Suc j" using Suc(2) by simp
    from Suc(1)[OF this] True show ?thesis by (simp add: algebra_simps)
  next
    case False
    then have "(D + 6) div 7 \<le> Suc j" by simp
    then show ?thesis using False by simp
  qed
  show ?case
    unfolding weekly_loop_step[OF le assms] r
    using lt by (simp add: upt_conv_Cons)
qed

lemma weekly_loop_month_windows:
  "D \<le> days_in_month y m \<Longrightarrow> weekly_loop (y, m, 1) (y, m, D) 1 = month_windows y m D"
  using weekly_loop_from[of D y m 0] by (simp add: month_windows_def)

lemma end_of_month_of_first_day:
  assumes "1 \<le> m" and "m \<le> 12"
  shows "prev_day (add_month (replace_day1 (y, m, d))) = (y, m, days_in_month y m)"
proof (cases "m = 12")
  case True
  then show ?thesis by (simp add: days_in_month_def)
next
  case False
  have "min 1 (days_in_month y (m + 1)) = 1" using days_in_month_ge_28[of y "m + 1"] by simp
  then show ?thesis using False assms by simp
qed

lemma single_month_max:
  assumes "single_month y m tdf"
  shows "Max (set (known_dates tdf)) = (y, m, last_day tdf)"
    and "1 \<le> last_day tdf" and "last_day tdf \<le> days_in_month y m"
    and "(y, m, d) \<in> set (known_dates tdf) \<Longrightarrow> 1 \<le> d \<and> d \<le> last_day tdf"
proof -
  have ne: "set (known_dates tdf) \<noteq> {}" using assms by (simp add: single_month_def)
  have "Max (set (known_dates tdf)) \<in> set (known_dates tdf)" using ne by (intro Max_in) simp_all
  then obtain D where D: "Max (set (known_dates tdf)) = (y, m, D)" "1 \<le> D" "D \<le> days_in_month y m"
    using assms unfolding single_month_def by blast
  then have l: "last_day tdf = D" by (simp add: last_day_def)
  show "Max (set (known_dates tdf)) = (y, m, last_day tdf)" using D l by simp
  show "1 \<le> last_day tdf" using D l by simp
  show "last_day tdf \<le> days_in_month y m" using D l by simp
  show "1 \<le> d \<and> d \<le> last_day tdf" if "(y, m, d) \<in> set (known_dates tdf)"
  proof -
    have "(y, m, d) \<le> Max (set (known_dates tdf))" using that by (intro Max_ge) simp_all
    then have "d \<le> D" using D by (simp add: same_month_le)
    moreover have "1 \<le> d" using that assms by (auto simp: single_month_def)
    ultimately show ?thesis using l by simp
  qed
qed

lemma single_month_min:
  assumes "single_month y m tdf"
  shows "replace_day1 (Min (set (known_dates tdf))) = (y, m, 1)"
proof -
  have ne: "set (known_dates tdf) \<noteq> {}" using assms by (simp add: single_month_def)
  have "Min (set (known_dates tdf)) \<in> set (known_dates tdf)" using ne by (intro Min_in) simp_all
  then obtain d where "Min (set (known_dates tdf)) = (y, m, d)"
    using assms unfolding single_month_def by blast
  then show ?thesis by simp
qed

lemma weekly_windows_single_month:
  assumes "single_month y m tdf"
  shows "weekly_windows tdf = month_windows y m (last_day tdf)"
proof -
  have ne: "known_dates tdf \<noteq> []" and m: "1 \<le> m" "m \<le> 12"
    using assms by (simp_all add: single_month_def)
  note mx = single_month_max[OF assms]
  have e: "min (prev_day (add_month (replace_day1 (Max (set (known_dates tdf))))))
               (Max (set (known_dates tdf))) = (y, m, last_day tdf)"
    unfolding mx(1) end_of_month_of_first_day[OF m]
    using mx(3) by (simp add: min_def same_month_le)
  show ?thesis
    using ne weekly_loop_month_windows[OF mx(3)]
    by (simp add: weekly_windows_def Let_def e single_month_min[OF assms])
qed






















text \<open>
  A window that holds only an expense whose category is read as missing gets no section:
  in the September with the one expense of category \<^verbatim>\<open>NA\<close> on the 5th the report is
  written, with the expense total 10, and has no weekly section.
\<close>

lemma na_rows:
  "read_month na_fs ''2025-09'' =
     [\<lparr>date = Str ''2025-09-05'', category = NaN, amount = 10, type = Str ''expense'', note = NaN\<rparr>]"
  by (simp add: na_fs_def reports_eval_defs)

lemma na_single_month:
  "single_month 2025 9 [(Some (2025, 9, 5), r)]" "last_day [(Some (2025, 9, 5), r)] = 5"
  by (simp_all add: single_month_def last_day_def known_dates_def List.map_filter_simps
        days_in_month_def)

lemma month_windows_2025_9_5: "month_windows 2025 9 5 = [(1, (2025, 9, 1), (2025, 9, 5))]"
proof -
  have "[0..<(5 + 6) div 7] = [0::nat]" by (simp add: upt_rec)
  then show ?thesis by (simp add: month_windows_def)
qed

lemma na_category_no_section:
  "snd (export_md stable_kind na_fs ''2025-09'') = None
   \<and> (\<exists>r. report_dir (fst (export_md stable_kind na_fs ''2025-09'')) ''2025-09'' = Some (MonthReport r)
        \<and> mr_weekly r = [] \<and> mr_expense_total r = 10)
   \<and> weekly_windows [(Some (2025, 9, 5),
        \<lparr>date = Str ''2025-09-05'', category = NaN, amount = 10, type = Str ''expense'', note = NaN\<rparr>)] =
       [(1, (2025, 9, 1), (2025, 9, 5))]"
proof -
  let ?r = "\<lparr>date = Str ''2025-09-05'', category = NaN, amount = 10, type = Str ''expense'', note = NaN\<rparr>"
  have e: "ensure_csv na_fs ''2025-09'' = Inr na_fs" by (simp add: na_fs_def reports_eval_defs)
  have d: "with_datetime [?r] = Inr [(Some (2025, 9, 5), ?r)]"
    by (simp add: with_datetime_def to_datetime_def is_digit_def digits_val_def
          digit_val_def days_in_month_def)
  have w: "weekly_windows [(Some (2025, 9, 5), ?r)] = [(1, (2025, 9, 1), (2025, 9, 5))]"
    using weekly_windows_single_month[OF na_single_month(1), of ?r]
    by (simp add: na_single_month(2) month_windows_2025_9_5)
  have s: "List.map_filter (weekly_section_of stable_kind ''2025-09'' [(Some (2025, 9, 5), ?r)])
             [(1, (2025, 9, 1), (2025, 9, 5))] = []"
    by (simp add: List.map_filter_simps weekly_section_of_def weekly_df_def less_eq_prod_def
          groupby_category_sum_def category_keys_def sort_values_desc_def stable_kind_def Let_def)
  have ws: "List.map_filter (weekly_section_of stable_kind ''2025-09'' [(Some (2025, 9, 5), ?r)])
             (weekly_windows [(Some (2025, 9, 5), ?r)]) = []"
    unfolding w by (rule s)
  have g: "groupby_category_sum (rows_of_type ''expense'' [?r]) = []"
    by (simp add: rows_of_type_def groupby_category_sum_def category_keys_def)
  have x: "snd (export_md stable_kind na_fs ''2025-09'') = None
   \<and> (\<exists>r. report_dir (fst (export_md stable_kind na_fs ''2025-09'')) ''2025-09'' = Some (MonthReport r)
        \<and> mr_weekly r = [] \<and> mr_expense_total r = 10)"
    by (simp add: export_md_def e d ws g na_rows Let_def)
       (simp add: rows_of_type_def amount_sum_def)
  show ?thesis using x w by blast
qed

end
